theory Spec2Isabelle
  imports Complex_Main "HOL-Library.AList"
begin

section \<open>Data model (src/email/types/index.ts)\<close>

text \<open>
  JavaScript values that can be thrown.  \<open>Error\<close> is an \<^verbatim>\<open>Error\<close> instance with its
  message and optional \<^verbatim>\<open>code\<close>; \<open>AxiosError\<close> additionally carries the HTTP status of
  \<^verbatim>\<open>error.response\<close>; \<open>Value\<close> is a thrown value that is not an object (its
  \<^verbatim>\<open>String(error)\<close> rendering).
\<close>

datatype exn =
    Error string "string option"
  | AxiosError string "string option" "nat option"
  | Value string

text \<open>\<^verbatim>\<open>error instanceof Error ? error.message : String(error)\<close>\<close>

fun errorMessage :: "exn \<Rightarrow> string" where
  "errorMessage (Error m c) = m"
| "errorMessage (AxiosError m c st) = m"
| "errorMessage (Value s) = s"

datatype NotificationStatus = DELIVERED | PENDING | FAILED

text \<open>
  The payload's \<^verbatim>\<open>variables\<close> object is kept as the list of its properties in key order,
  each value in its \<^verbatim>\<open>String(value)\<close> form; \<^verbatim>\<open>notification_type\<close> is the constant
  \<^verbatim>\<open>'email'\<close> and \<^verbatim>\<open>metadata\<close> is never read.
\<close>

record EmailNotificationPayload =
  user_id :: string
  template_code :: string
  variables :: "(string \<times> string) list"
  request_id :: string
  priority :: int

record UserData =
  id_user :: string
  name :: string
  email :: string
  preferences_email :: bool
  preferences_push :: bool

record EmailTemplate =
  id_template :: string
  code :: string
  subject :: string
  html_body :: string
  text_body :: "string option"
  variables_required :: "string list"
  language :: string
  version :: nat

record StatusUpdate =
  notification_id :: string
  status :: NotificationStatus
  status_timestamp :: int
  status_error :: "string option"

record EmailSendResult =
  success :: bool
  message_id :: "string option"
  error :: "string option"
  timestamp :: int

text \<open>The result of \<^verbatim>\<open>renderTemplate\<close> and the argument of \<^verbatim>\<open>sendEmail\<close>.\<close>

record Rendered =
  rendered_subject :: string
  rendered_html_body :: string
  rendered_text_body :: "string option"

record EmailPayload =
  to_address :: string
  subject_line :: string
  html :: string
  text_alternative :: "string option"
  correlationId :: string

text \<open>The options object handed to \<^verbatim>\<open>transporter.sendMail\<close>.\<close>

record MailOptions =
  mail_from :: string
  mail_to :: string
  mail_subject_line :: string
  mail_html :: string
  mail_text :: string
  mail_correlation :: string

text \<open>src/email/services/retry.service.ts, \<^verbatim>\<open>interface RetryMetadata\<close>.\<close>

record RetryMetadata =
  retry_request_id :: string
  attempt_count :: nat
  first_attempt_at :: int
  last_attempt_at :: int
  next_retry_at :: int
  errors :: "string list"

text \<open>src/email/services/circuit-breaker.service.ts.\<close>

datatype CircuitState = CLOSED | OPEN | HALF_OPEN

record CircuitBreaker =
  state :: CircuitState
  failure_count :: nat
  success_count :: nat
  last_failure_time :: "int option"
  next_attempt_time :: int

section \<open>The world the service runs in\<close>

text \<open>
  The key-value store holds one family of keys per prefix (\<^verbatim>\<open>processed:\<close>,
  \<^verbatim>\<open>status:\<close>, \<^verbatim>\<open>retry:\<close>, \<^verbatim>\<open>user:\<close>, \<^verbatim>\<open>template:\<close>); the prefixes are
  distinct constants, so each family is a map of its own, indexed by the rest of the key.
  A stored value is the object that was given to \<^verbatim>\<open>JSON.stringify\<close> (such a string is
  never empty, hence truthy when read back), together with the time at which the entry
  expires (\<open>None\<close>: no expiry).  Times are milliseconds.
\<close>

type_synonym 'v entries = "string \<rightharpoonup> ('v \<times> int option)"

text \<open>
  Invocations of the collaborators, in the order the service makes them: the HTTP
  requests of the user and template lookups, \<^verbatim>\<open>transporter.sendMail\<close>,
  \<^verbatim>\<open>statusClient.emit\<close>, and the acknowledgements on the queue channel
  (\<open>Nack requeue\<close>).
\<close>

datatype event =
    HttpUser string
  | HttpTemplate string
  | SendMail MailOptions
  | Emit StatusUpdate
  | Ack
  | Nack bool

record world =
  tick :: nat
  processed :: "EmailSendResult entries"
  status_cache :: "StatusUpdate entries"
  retry :: "RetryMetadata entries"
  user_cache :: "UserData entries"
  template_cache :: "EmailTemplate entries"
  circuits :: "string \<rightharpoonup> CircuitBreaker"
  calls :: "event list"

text \<open>
  What the surroundings answer.  Every call that leaves the process (a Redis command, an
  HTTP request, a mail submission, a status emission) happens at the current \<open>tick\<close> and
  advances it; the environment fixes, per tick, the wall clock and the outcome of the call made
  there.  \<open>render\<close> and \<open>strip_html\<close> stand for the regular-expression substitutions of
  \<^verbatim>\<open>renderTemplate\<close> (which may throw) and \<^verbatim>\<open>stripHtml\<close>; \<open>random\<close> is
  \<^verbatim>\<open>Math.random()\<close>, a double from 0 up to but not including 1.
\<close>

record env =
  clock :: "nat \<Rightarrow> int"
  redis_fault :: "nat \<Rightarrow> exn option"
  user_api :: "nat \<Rightarrow> string \<Rightarrow> exn + UserData"
  template_api :: "nat \<Rightarrow> string \<Rightarrow> exn + EmailTemplate"
  transport :: "nat \<Rightarrow> MailOptions \<Rightarrow> exn + string"
  sink_fault :: "nat \<Rightarrow> exn option"
  render :: "EmailTemplate \<Rightarrow> (string \<times> string) list \<Rightarrow> exn + Rendered"
  strip_html :: "string \<Rightarrow> string"
  random :: "nat \<Rightarrow> real"
  email_from :: "string option"

text \<open>
  An asynchronous function: it runs on a world and either throws (rejects) or returns
  (resolves), leaving the world it has changed so far.
\<close>

type_synonym 'a io = "world \<Rightarrow> (exn + 'a) \<times> world"

definition return :: "'a \<Rightarrow> 'a io" where
  "return x w = (Inr x, w)"

definition throw :: "exn \<Rightarrow> 'a io" where
  "throw e w = (Inl e, w)"

text \<open>\<^verbatim>\<open>const x = await m; k(x)\<close>\<close>

definition await :: "'a io \<Rightarrow> ('a \<Rightarrow> 'b io) \<Rightarrow> 'b io" where
  "await m k w = (case m w of (Inl e, w') \<Rightarrow> (Inl e, w') | (Inr x, w') \<Rightarrow> k x w')"

text \<open>\<^verbatim>\<open>try { m } catch (error) { h(error) }\<close>\<close>

definition try_catch :: "'a io \<Rightarrow> (exn \<Rightarrow> 'a io) \<Rightarrow> 'a io" where
  "try_catch m h w = (case m w of (Inl e, w') \<Rightarrow> h e w' | (Inr x, w') \<Rightarrow> (Inr x, w'))"

text \<open>\<^verbatim>\<open>Date.now()\<close>, \<^verbatim>\<open>new Date()\<close>\<close>

definition Date_now :: "env \<Rightarrow> world \<Rightarrow> int" where
  "Date_now \<Omega> w = clock \<Omega> (tick w)"

definition step :: "world \<Rightarrow> world" where
  "step w = w\<lparr>tick := Suc (tick w)\<rparr>"

section \<open>RedisService (src/shared/redis.service.ts)\<close>

text \<open>An entry is visible until its expiry time.\<close>

definition live :: "int \<Rightarrow> ('v \<times> int option) option \<Rightarrow> 'v option" where
  "live t en = (case en of None \<Rightarrow> None
     | Some (v, None) \<Rightarrow> Some v
     | Some (v, Some ex) \<Rightarrow> (if t < ex then Some v else None))"

text \<open>
  The commands of the Redis client.  A key family is given by the selector of its map
  (for reading) or the update function of its map (for writing).
\<close>

definition client_get :: "env \<Rightarrow> (world \<Rightarrow> 'v entries) \<Rightarrow> string \<Rightarrow> 'v option io" where
  "client_get \<Omega> family key w =
     (case redis_fault \<Omega> (tick w) of
        Some e \<Rightarrow> (Inl e, step w)
      | None \<Rightarrow> (Inr (live (Date_now \<Omega> w) (family w key)), step w))"

definition client_put ::
  "env \<Rightarrow> (('v entries \<Rightarrow> 'v entries) \<Rightarrow> world \<Rightarrow> world) \<Rightarrow> string \<Rightarrow> 'v \<Rightarrow> int option \<Rightarrow> unit io"
where
  "client_put \<Omega> family_update key v ex w =
     (case redis_fault \<Omega> (tick w) of
        Some e \<Rightarrow> (Inl e, step w)
      | None \<Rightarrow> (Inr (), step (family_update (\<lambda>m. m(key \<mapsto> (v, ex))) w)))"

text \<open>\<^verbatim>\<open>get\<close>: a failing read is logged and answered with \<^verbatim>\<open>null\<close>.\<close>

definition redis_get :: "env \<Rightarrow> (world \<Rightarrow> 'v entries) \<Rightarrow> string \<Rightarrow> 'v option io" where
  "redis_get \<Omega> family key = try_catch (client_get \<Omega> family key) (\<lambda>e. return None)"

text \<open>
  \<^verbatim>\<open>set\<close>: \<^verbatim>\<open>setEx\<close> when \<^verbatim>\<open>ttl\<close> is truthy (given and not 0), \<^verbatim>\<open>set\<close> otherwise;
  a failing write is logged and thrown again.  \<^verbatim>\<open>ttl\<close> is in seconds.
\<close>

definition redis_set ::
  "env \<Rightarrow> (('v entries \<Rightarrow> 'v entries) \<Rightarrow> world \<Rightarrow> world) \<Rightarrow> string \<Rightarrow> 'v \<Rightarrow> nat option \<Rightarrow> unit io"
where
  "redis_set \<Omega> family_update key v ttl =
     try_catch
       (\<lambda>w. case ttl of
          Some (Suc n) \<Rightarrow> client_put \<Omega> family_update key v (Some (Date_now \<Omega> w + 1000 * int (Suc n))) w
        | _ \<Rightarrow> client_put \<Omega> family_update key v None w)
       (\<lambda>e. throw e)"

text \<open>\<^verbatim>\<open>del\<close>: a failing delete is logged and swallowed.\<close>

definition redis_del ::
  "env \<Rightarrow> (('v entries \<Rightarrow> 'v entries) \<Rightarrow> world \<Rightarrow> world) \<Rightarrow> string \<Rightarrow> unit io"
where
  "redis_del \<Omega> family_update key =
     try_catch
       (\<lambda>w. case redis_fault \<Omega> (tick w) of
          Some e \<Rightarrow> (Inl e, step w)
        | None \<Rightarrow> (Inr (), step (family_update (\<lambda>m. m(key := None)) w)))
       (\<lambda>e. return ())"

section \<open>CircuitBreakerService (src/email/services/circuit-breaker.service.ts)\<close>

definition FAILURE_THRESHOLD :: nat where "FAILURE_THRESHOLD = 5"
definition SUCCESS_THRESHOLD :: nat where "SUCCESS_THRESHOLD = 2"
definition TIMEOUT :: int where "TIMEOUT = 60000"

definition new_circuit :: CircuitBreaker where
  "new_circuit = \<lparr>state = CLOSED, failure_count = 0, success_count = 0,
     last_failure_time = None, next_attempt_time = 0\<rparr>"

definition getOrCreateCircuit :: "string \<Rightarrow> world \<Rightarrow> CircuitBreaker \<times> world" where
  "getOrCreateCircuit circuit_name w =
     (case circuits w circuit_name of
        None \<Rightarrow> (new_circuit, w\<lparr>circuits := (circuits w)(circuit_name \<mapsto> new_circuit)\<rparr>)
      | Some c \<Rightarrow> (c, w))"

definition onSuccess :: "CircuitBreaker \<Rightarrow> CircuitBreaker" where
  "onSuccess circuit =
     (let c1 = circuit\<lparr>failure_count := 0\<rparr> in
      if state c1 = HALF_OPEN then
        (let c2 = c1\<lparr>success_count := success_count c1 + 1\<rparr> in
         if success_count c2 \<ge> SUCCESS_THRESHOLD
         then c2\<lparr>state := CLOSED, success_count := 0\<rparr>
         else c2)
      else c1)"

definition onFailure :: "int \<Rightarrow> CircuitBreaker \<Rightarrow> CircuitBreaker" where
  "onFailure now circuit =
     (let c1 = circuit\<lparr>failure_count := failure_count circuit + 1,
                       last_failure_time := Some now\<rparr> in
      if state c1 = HALF_OPEN then
        c1\<lparr>state := OPEN, next_attempt_time := now + TIMEOUT, success_count := 0\<rparr>
      else if failure_count c1 \<ge> FAILURE_THRESHOLD then
        c1\<lparr>state := OPEN, next_attempt_time := now + TIMEOUT\<rparr>
      else c1)"

text \<open>
  The circuit object is mutated in place; the model writes the changed record back under
  its name.  After the wrapped operation has run, the object is the one the map holds
  under \<open>circuit_name\<close> (an operation that removes the entry leaves the map without it).
\<close>

definition mutate :: "string \<Rightarrow> (CircuitBreaker \<Rightarrow> CircuitBreaker) \<Rightarrow> world \<Rightarrow> world" where
  "mutate circuit_name f w =
     (case circuits w circuit_name of
        None \<Rightarrow> w
      | Some c \<Rightarrow> w\<lparr>circuits := (circuits w)(circuit_name \<mapsto> f c)\<rparr>)"

definition run_operation :: "env \<Rightarrow> 'a io \<Rightarrow> string \<Rightarrow> 'a io" where
  "run_operation \<Omega> operation circuit_name w =
     (case operation w of
        (Inr result, w') \<Rightarrow> (Inr result, mutate circuit_name onSuccess w')
      | (Inl e, w') \<Rightarrow> (Inl e, mutate circuit_name (onFailure (Date_now \<Omega> w')) w'))"

definition execute :: "env \<Rightarrow> 'a io \<Rightarrow> string \<Rightarrow> 'a io" where
  "execute \<Omega> operation circuit_name w0 =
     (let (circuit, w) = getOrCreateCircuit circuit_name w0 in
      if state circuit = OPEN then
        (if Date_now \<Omega> w < next_attempt_time circuit
         then (Inl (Error (''Circuit breaker is OPEN for '' @ circuit_name) None), w)
         else run_operation \<Omega> operation circuit_name
                (mutate circuit_name (\<lambda>c. c\<lparr>state := HALF_OPEN, success_count := 0\<rparr>) w))
      else run_operation \<Omega> operation circuit_name w)"

definition getCircuitStatus :: "string \<Rightarrow> world \<Rightarrow> CircuitBreaker option" where
  "getCircuitStatus circuit_name w = circuits w circuit_name"

section \<open>JavaScript numbers\<close>

text \<open>
  A JavaScript number is an IEEE-754 double.  A finite double is modelled by the real it
  denotes, and an arithmetic operation returns the double nearest to its exact result,
  ties going to the even significand.  \<open>rne\<close> rounds a real to the nearest integer, ties
  to even; \<open>expo x\<close> is the exponent of the binade of \<open>x\<close>, not below \<open>- 1022\<close> (the
  subnormal numbers share the spacing of the lowest binade); \<open>fl x\<close> is the nearest
  multiple of \<open>2 powi (expo x - 52)\<close>.  \<open>double\<close> is the result of an operation whose exact
  value is \<open>x\<close>: \<open>None\<close> stands for \<^verbatim>\<open>Infinity\<close>, which is returned once the rounded
  value reaches \<open>2 ^ 1024\<close>.
\<close>

definition rne :: "real \<Rightarrow> int" where
  "rne q =
     (let f = \<lfloor>q\<rfloor>; d = q - of_int f
      in if d < 1 / 2 then f
         else if 1 / 2 < d then f + 1
         else if even f then f else f + 1)"

definition expo :: "real \<Rightarrow> int" where
  "expo x = max \<lfloor>log 2 \<bar>x\<bar>\<rfloor> (- 1022)"

definition fl :: "real \<Rightarrow> real" where
  "fl x = (if x = 0 then 0
           else of_int (rne (x / 2 powi (expo x - 52))) * 2 powi (expo x - 52))"

definition double :: "real \<Rightarrow> real option" where
  "double x = (if 2 ^ 1024 \<le> \<bar>fl x\<bar> then None else Some (fl x))"

text \<open>
  \<^verbatim>\<open>Math.pow(b, k)\<close> for an integral exponent, \<^verbatim>\<open>a * b\<close> for a finite positive
  \<open>a\<close>, and \<^verbatim>\<open>Math.min(a, b)\<close> for a finite \<open>b\<close>; the first two may be
  \<^verbatim>\<open>Infinity\<close>.  The service raises 2 only: its powers are doubles themselves up to
  \<open>2 ^ 1023\<close>, and \<^verbatim>\<open>Infinity\<close> from \<open>2 ^ 1024\<close> on.
\<close>

definition Math_pow :: "real \<Rightarrow> int \<Rightarrow> real option" where
  "Math_pow b k = double (b powi k)"

definition multiply :: "real \<Rightarrow> real option \<Rightarrow> real option" where
  "multiply a b = (case b of None \<Rightarrow> None | Some y \<Rightarrow> double (a * y))"

definition Math_min :: "real option \<Rightarrow> real \<Rightarrow> real" where
  "Math_min a b = (case a of None \<Rightarrow> b | Some x \<Rightarrow> min x b)"

section \<open>RetryService (src/email/services/retry.service.ts)\<close>

definition INITIAL_DELAY_MS :: real where "INITIAL_DELAY_MS = 1000"
definition MAX_DELAY_MS :: real where "MAX_DELAY_MS = 300000"
definition BACKOFF_MULTIPLIER :: real where "BACKOFF_MULTIPLIER = 2"
definition MAX_ATTEMPTS :: nat where "MAX_ATTEMPTS = 3"

text \<open>
  The local \<^verbatim>\<open>delay\<close> of \<^verbatim>\<open>calculateBackoff\<close>, before the jitter is added:
  \<^verbatim>\<open>Math.min(INITIAL_DELAY_MS * Math.pow(BACKOFF_MULTIPLIER, attempt_count - 1), MAX_DELAY_MS)\<close>.
  The attempt count is a natural number.
\<close>

definition base_delay :: "nat \<Rightarrow> real" where
  "base_delay attempt =
     Math_min (multiply INITIAL_DELAY_MS (Math_pow BACKOFF_MULTIPLIER (int attempt - 1)))
       MAX_DELAY_MS"

text \<open>
  \<open>r\<close> is the value drawn by \<^verbatim>\<open>Math.random()\<close>.  \<^verbatim>\<open>delay * 0.2 * Math.random()\<close> is
  two multiplications from the left, the literal \<^verbatim>\<open>0.2\<close> being the double nearest to
  one fifth; the sum \<^verbatim>\<open>delay + jitter\<close> is rounded once more before \<^verbatim>\<open>Math.floor\<close>.
  With a delay of at most 300000 and a draw below 1 none of these can be \<^verbatim>\<open>Infinity\<close>.
\<close>

definition calculateBackoff :: "nat \<Rightarrow> real \<Rightarrow> int" where
  "calculateBackoff attempt r =
     (let delay = base_delay attempt;
          jitter = fl (fl (delay * fl 0.2) * r)
      in \<lfloor>fl (delay + jitter)\<rfloor>)"

definition getRetryCount :: "env \<Rightarrow> string \<Rightarrow> nat io" where
  "getRetryCount \<Omega> rid =
     await (redis_get \<Omega> retry rid) (\<lambda>metadata.
       case metadata of
         None \<Rightarrow> return 0
       | Some retryData \<Rightarrow> return (attempt_count retryData))"

definition recordRetry :: "env \<Rightarrow> string \<Rightarrow> string \<Rightarrow> unit io" where
  "recordRetry \<Omega> rid err =
     await (redis_get \<Omega> retry rid) (\<lambda>existing w.
       let now = Date_now \<Omega> w;
           retryData = (case existing of
              Some d \<Rightarrow> d\<lparr>attempt_count := attempt_count d + 1,
                         last_attempt_at := now,
                         errors := errors d @ [err]\<rparr>
            | None \<Rightarrow> \<lparr>retry_request_id = rid, attempt_count = 1, first_attempt_at = now,
                       last_attempt_at = now, next_retry_at = now, errors = [err]\<rparr>);
           delay = calculateBackoff (attempt_count retryData) (random \<Omega> (tick w))
       in redis_set \<Omega> retry_update rid
            (retryData\<lparr>next_retry_at := Date_now \<Omega> w + delay\<rparr>) (Some 86400) w)"

definition RetryService_shouldRetry :: "env \<Rightarrow> string \<Rightarrow> bool io" where
  "RetryService_shouldRetry \<Omega> rid =
     await (getRetryCount \<Omega> rid) (\<lambda>count. return (count < MAX_ATTEMPTS))"

definition getRetryMetadata :: "env \<Rightarrow> string \<Rightarrow> RetryMetadata option io" where
  "getRetryMetadata \<Omega> rid = redis_get \<Omega> retry rid"

definition clearRetry :: "env \<Rightarrow> string \<Rightarrow> unit io" where
  "clearRetry \<Omega> rid = redis_del \<Omega> retry_update rid"

section \<open>UserService and TemplateService (src/email/services)\<close>

text \<open>The HTTP request to the user service; the request is recorded whatever its outcome.\<close>

definition http_get_user :: "env \<Rightarrow> string \<Rightarrow> UserData io" where
  "http_get_user \<Omega> uid w = (user_api \<Omega> (tick w) uid, step (w\<lparr>calls := calls w @ [HttpUser uid]\<rparr>))"

text \<open>
  \<^verbatim>\<open>getUserById\<close>: the cache first, then the user service; a 404 answer is \<^verbatim>\<open>null\<close>,
  every other error is thrown again.
\<close>

definition getUserById :: "env \<Rightarrow> string \<Rightarrow> UserData option io" where
  "getUserById \<Omega> uid =
     try_catch
       (await (redis_get \<Omega> user_cache uid) (\<lambda>cached.
          case cached of
            Some user \<Rightarrow> return (Some user)
          | None \<Rightarrow>
              await (http_get_user \<Omega> uid) (\<lambda>user.
              await (redis_set \<Omega> user_cache_update uid user (Some 1800)) (\<lambda>_.
              return (Some user)))))
       (\<lambda>e. case e of
          AxiosError m c (Some st) \<Rightarrow> if st = 404 then return None else throw e
        | _ \<Rightarrow> throw e)"

definition http_get_template :: "env \<Rightarrow> string \<Rightarrow> EmailTemplate io" where
  "http_get_template \<Omega> tc w =
     (template_api \<Omega> (tick w) tc, step (w\<lparr>calls := calls w @ [HttpTemplate tc]\<rparr>))"

text \<open>\<^verbatim>\<open>getTemplate\<close>: every error is logged and answered with \<^verbatim>\<open>null\<close>.\<close>

definition getTemplate :: "env \<Rightarrow> string \<Rightarrow> EmailTemplate option io" where
  "getTemplate \<Omega> tc =
     try_catch
       (await (redis_get \<Omega> template_cache tc) (\<lambda>cached.
          case cached of
            Some template \<Rightarrow> return (Some template)
          | None \<Rightarrow>
              await (http_get_template \<Omega> tc) (\<lambda>template.
              await (redis_set \<Omega> template_cache_update tc template (Some 3600)) (\<lambda>_.
              return (Some template)))))
       (\<lambda>e. return None)"

definition renderTemplate :: "env \<Rightarrow> EmailTemplate \<Rightarrow> (string \<times> string) list \<Rightarrow> Rendered io" where
  "renderTemplate \<Omega> template vars =
     (case render \<Omega> template vars of Inl e \<Rightarrow> throw e | Inr r \<Rightarrow> return r)"

section \<open>EmailSender (src/email/services/email-sender.service.ts)\<close>

text \<open>\<^verbatim>\<open>haystack.includes(needle)\<close>\<close>

fun includes_str :: "string \<Rightarrow> string \<Rightarrow> bool" where
  "includes_str [] needle = (needle = [])"
| "includes_str (x # xs) needle = (take (length needle) (x # xs) = needle \<or> includes_str xs needle)"

definition retryableErrors :: "string list" where
  "retryableErrors = [''ETIMEDOUT'', ''ECONNRESET'', ''ENOTFOUND'', ''ECONNREFUSED'', ''EHOSTUNREACH'']"

text \<open>
  \<^verbatim>\<open>isRetryableError\<close>: a thrown object with a \<^verbatim>\<open>code\<close> or a \<^verbatim>\<open>message\<close> is
  inspected, any other thrown value is not retryable.
\<close>

fun isRetryableError :: "exn \<Rightarrow> bool" where
  "isRetryableError (Value s) = False"
| "isRetryableError e =
     (let c = (case e of Error m c \<Rightarrow> c | AxiosError m c st \<Rightarrow> c | Value s \<Rightarrow> None);
          m = errorMessage e
      in (case c of None \<Rightarrow> False | Some k \<Rightarrow> k \<in> set retryableErrors)
         \<or> includes_str m ''timeout'' \<or> includes_str m ''rate limit'')"

definition sendMail :: "env \<Rightarrow> MailOptions \<Rightarrow> string io" where
  "sendMail \<Omega> opts w = (transport \<Omega> (tick w) opts, step (w\<lparr>calls := calls w @ [SendMail opts]\<rparr>))"

definition mail_options :: "env \<Rightarrow> EmailPayload \<Rightarrow> MailOptions" where
  "mail_options \<Omega> payload =
     \<lparr>mail_from = (case email_from \<Omega> of
                     None \<Rightarrow> ''noreply@notifications.com''
                   | Some f \<Rightarrow> if f = [] then ''noreply@notifications.com'' else f),
      mail_to = to_address payload,
      mail_subject_line = subject_line payload,
      mail_html = html payload,
      mail_text = (case text_alternative payload of
                     None \<Rightarrow> strip_html \<Omega> (html payload)
                   | Some t \<Rightarrow> if t = [] then strip_html \<Omega> (html payload) else t),
      mail_correlation = correlationId payload\<rparr>"

text \<open>The arrow function handed to the circuit breaker: it catches what the transport throws.\<close>

definition send_operation :: "env \<Rightarrow> EmailPayload \<Rightarrow> EmailSendResult io" where
  "send_operation \<Omega> payload =
     try_catch
       (await (sendMail \<Omega> (mail_options \<Omega> payload)) (\<lambda>messageId w.
          return \<lparr>success = True, message_id = Some messageId, error = None,
                  timestamp = Date_now \<Omega> w\<rparr> w))
       (\<lambda>e w.
          return \<lparr>success = False, message_id = None,
                  error = Some (errorMessage e @ '' (Retryable: ''
                                @ (if isRetryableError e then ''true'' else ''false'') @ '')''),
                  timestamp = Date_now \<Omega> w\<rparr> w)"

definition sendEmail :: "env \<Rightarrow> EmailPayload \<Rightarrow> EmailSendResult io" where
  "sendEmail \<Omega> payload = execute \<Omega> (send_operation \<Omega> payload) ''email_send''"

section \<open>EmailService (src/email/email.service.ts)\<close>

definition MAX_RETRY_ATTEMPTS :: nat where "MAX_RETRY_ATTEMPTS = 3"

text \<open>
  \<^verbatim>\<open>statusClient.emit('email.status', statusUpdate)\<close>; the call is recorded whether or not
  it throws.
\<close>

definition emit :: "env \<Rightarrow> StatusUpdate \<Rightarrow> unit io" where
  "emit \<Omega> statusUpdate w =
     (case sink_fault \<Omega> (tick w) of Some e \<Rightarrow> Inl e | None \<Rightarrow> Inr (),
      step (w\<lparr>calls := calls w @ [Emit statusUpdate]\<rparr>))"

text \<open>
  \<^verbatim>\<open>updateStatus\<close>: the status is emitted and then cached for an hour; whatever either
  step throws is logged and swallowed.
\<close>

definition updateStatus :: "env \<Rightarrow> string \<Rightarrow> NotificationStatus \<Rightarrow> string option \<Rightarrow> unit io" where
  "updateStatus \<Omega> nid st err w =
     (let statusUpdate = \<lparr>notification_id = nid, status = st,
                          status_timestamp = Date_now \<Omega> w, status_error = err\<rparr>
      in try_catch
           (await (emit \<Omega> statusUpdate) (\<lambda>_.
            redis_set \<Omega> status_cache_update nid statusUpdate (Some 3600)))
           (\<lambda>e. return ()) w)"

definition checkIdempotency :: "env \<Rightarrow> string \<Rightarrow> bool io" where
  "checkIdempotency \<Omega> rid =
     await (redis_get \<Omega> processed rid) (\<lambda>exists. return (exists \<noteq> None))"

definition markAsProcessed :: "env \<Rightarrow> string \<Rightarrow> EmailSendResult \<Rightarrow> unit io" where
  "markAsProcessed \<Omega> rid result = redis_set \<Omega> processed_update rid result (Some 86400)"

text \<open>
  Steps 2 to 6 of \<^verbatim>\<open>processEmailNotification\<close> (the \<^verbatim>\<open>try\<close> block after the guard):
  \<open>deliver\<close> emits PENDING and fetches the user, \<open>after_lookup\<close> is the rest of the
  block, from the check of the fetched user on.
  \<^verbatim>\<open>{...payload.variables, user_name: user.name}\<close> replaces the value of an existing
  \<^verbatim>\<open>user_name\<close> property in place and appends the property otherwise.
\<close>

definition after_lookup :: "env \<Rightarrow> EmailNotificationPayload \<Rightarrow> UserData option \<Rightarrow> EmailSendResult io" where
  "after_lookup \<Omega> payload = (\<lambda>found.
       case found of
         None \<Rightarrow> throw (Error (''User not found: '' @ user_id payload) None)
       | Some user \<Rightarrow>
           if \<not> preferences_email user then
             await (updateStatus \<Omega> (request_id payload) FAILED
                      (Some ''User has email notifications disabled'')) (\<lambda>_ w.
             return \<lparr>success = False, message_id = None,
                     error = Some ''User preferences disabled'',
                     timestamp = Date_now \<Omega> w\<rparr> w)
           else
             await (getTemplate \<Omega> (template_code payload)) (\<lambda>fetched.
               case fetched of
                 None \<Rightarrow> throw (Error (''Template not found: '' @ template_code payload) None)
               | Some template \<Rightarrow>
                   await (renderTemplate \<Omega> template
                            (AList.update ''user_name'' (name user) (variables payload)))
                     (\<lambda>renderedEmail.
                   await (sendEmail \<Omega>
                            \<lparr>to_address = email user,
                             subject_line = rendered_subject renderedEmail,
                             html = rendered_html_body renderedEmail,
                             text_alternative = rendered_text_body renderedEmail,
                             correlationId = request_id payload\<rparr>) (\<lambda>result.
                   await (if success result then
                            await (updateStatus \<Omega> (request_id payload) DELIVERED None) (\<lambda>_.
                            markAsProcessed \<Omega> (request_id payload) result)
                          else updateStatus \<Omega> (request_id payload) FAILED (error result)) (\<lambda>_.
                   return result)))))"

definition deliver :: "env \<Rightarrow> EmailNotificationPayload \<Rightarrow> EmailSendResult io" where
  "deliver \<Omega> payload =
     await (updateStatus \<Omega> (request_id payload) PENDING None) (\<lambda>_.
     await (getUserById \<Omega> (user_id payload)) (after_lookup \<Omega> payload))"

text \<open>The whole \<^verbatim>\<open>try\<close> block: the idempotency guard, then the delivery.\<close>

definition attempt :: "env \<Rightarrow> EmailNotificationPayload \<Rightarrow> EmailSendResult io" where
  "attempt \<Omega> payload =
     await (checkIdempotency \<Omega> (request_id payload)) (\<lambda>alreadyProcessed.
       if alreadyProcessed then
         (\<lambda>w. return \<lparr>success = True, message_id = Some ''duplicate'', error = None,
                       timestamp = Date_now \<Omega> w\<rparr> w)
       else deliver \<Omega> payload)"

text \<open>The \<^verbatim>\<open>catch\<close> block.\<close>

definition on_error :: "env \<Rightarrow> EmailNotificationPayload \<Rightarrow> exn \<Rightarrow> EmailSendResult io" where
  "on_error \<Omega> payload e =
     await (updateStatus \<Omega> (request_id payload) FAILED (Some (errorMessage e))) (\<lambda>_ w.
     return \<lparr>success = False, message_id = None, error = Some (errorMessage e),
             timestamp = Date_now \<Omega> w\<rparr> w)"

definition processEmailNotification :: "env \<Rightarrow> EmailNotificationPayload \<Rightarrow> EmailSendResult io" where
  "processEmailNotification \<Omega> payload = try_catch (attempt \<Omega> payload) (on_error \<Omega> payload)"

definition EmailService_shouldRetry :: "env \<Rightarrow> EmailNotificationPayload \<Rightarrow> bool io" where
  "EmailService_shouldRetry \<Omega> payload =
     await (getRetryCount \<Omega> (request_id payload)) (\<lambda>retryCount.
     return (retryCount < MAX_RETRY_ATTEMPTS))"

section \<open>EmailController (src/email/email.controller.ts)\<close>

definition channel_ack :: "unit io" where
  "channel_ack w = (Inr (), w\<lparr>calls := calls w @ [Ack]\<rparr>)"

definition channel_nack :: "bool \<Rightarrow> unit io" where
  "channel_nack requeue w = (Inr (), w\<lparr>calls := calls w @ [Nack requeue]\<rparr>)"

definition handleEmailNotification :: "env \<Rightarrow> EmailNotificationPayload \<Rightarrow> unit io" where
  "handleEmailNotification \<Omega> payload =
     try_catch
       (await (processEmailNotification \<Omega> payload) (\<lambda>result.
          if success result then channel_ack
          else
            await (EmailService_shouldRetry \<Omega> payload) (\<lambda>shouldRetry.
            if shouldRetry then channel_nack True else channel_nack False)))
       (\<lambda>e. channel_nack False)"

section \<open>Notions used to state the properties\<close>

text \<open>
  An operation handed to the circuit breaker that always throws, respectively always
  returns, and does not itself touch the breaker's registry.
\<close>

definition fails :: "'a io \<Rightarrow> bool" where
  "fails operation \<longleftrightarrow> (\<forall>w. \<exists>e w'. operation w = (Inl e, w') \<and> circuits w' = circuits w)"

definition succeeds :: "'a io \<Rightarrow> bool" where
  "succeeds operation \<longleftrightarrow> (\<forall>w. \<exists>x w'. operation w = (Inr x, w') \<and> circuits w' = circuits w)"

text \<open>Consecutive calls of \<^verbatim>\<open>execute\<close> on one circuit, with their outcomes.\<close>

fun execute_all :: "env \<Rightarrow> 'a io list \<Rightarrow> string \<Rightarrow> world \<Rightarrow> (exn + 'a) list \<times> world" where
  "execute_all \<Omega> [] circuit_name w = ([], w)"
| "execute_all \<Omega> (operation # rest) circuit_name w =
     (let r = execute \<Omega> operation circuit_name w;
          rs = execute_all \<Omega> rest circuit_name (snd r)
      in (fst r # fst rs, snd rs))"

text \<open>An asynchronous function that leaves a component \<open>f\<close> of the world as it found it.\<close>

definition keeps :: "(world \<Rightarrow> 'b) \<Rightarrow> 'a io \<Rightarrow> bool" where
  "keeps f m \<longleftrightarrow> (\<forall>w. f (snd (m w)) = f w)"

text \<open>An asynchronous function that only adds to the record of calls.\<close>

definition grows :: "'a io \<Rightarrow> bool" where
  "grows m \<longleftrightarrow> (\<forall>w. \<exists>evs. calls (snd (m w)) = calls w @ evs)"

text \<open>
  An asynchronous function that never looks at the processed records: run on a world with
  other processed records it has the same outcome and leaves the same world, processed
  records apart.
\<close>

definition heedless :: "'a io \<Rightarrow> bool" where
  "heedless m \<longleftrightarrow>
     (\<forall>w P. fst (m (w\<lparr>processed := P\<rparr>)) = fst (m w)
          \<and> (snd (m (w\<lparr>processed := P\<rparr>)))\<lparr>processed := Map.empty\<rparr>
              = (snd (m w))\<lparr>processed := Map.empty\<rparr>)"

text \<open>What a read of the retry record of a request yields when the store answers.\<close>

definition stored_attempt_count :: "env \<Rightarrow> string \<Rightarrow> world \<Rightarrow> nat" where
  "stored_attempt_count \<Omega> rid w =
     (case live (Date_now \<Omega> w) (retry w rid) of None \<Rightarrow> 0 | Some d \<Rightarrow> attempt_count d)"

section \<open>Concrete surroundings and inputs\<close>

definition alice :: UserData where
  "alice = \<lparr>id_user = ''u1'', name = ''Alice'', email = ''alice@example.com'',
            preferences_email = True, preferences_push = False\<rparr>"

definition welcome_template :: EmailTemplate where
  "welcome_template = \<lparr>id_template = ''1'', code = ''welcome'', subject = ''Welcome'',
              html_body = ''<h1>Hello</h1>'', text_body = None, variables_required = [],
              language = ''en'', version = 1\<rparr>"

definition r1 :: EmailNotificationPayload where
  "r1 = \<lparr>user_id = ''u1'', template_code = ''welcome'', variables = [],
         request_id = ''r1'', priority = 1\<rparr>"

text \<open>Surroundings in which every collaborator answers; one second passes per tick.\<close>

definition calm :: env where
  "calm = \<lparr>clock = (\<lambda>t. 1000 * int t),
           redis_fault = (\<lambda>t. None),
           user_api = (\<lambda>t uid. Inr alice),
           template_api = (\<lambda>t tc. Inr welcome_template),
           transport = (\<lambda>t opts. Inr ''m1''),
           sink_fault = (\<lambda>t. None),
           render = (\<lambda>template vars. Inr \<lparr>rendered_subject = subject template,
                                           rendered_html_body = html_body template,
                                           rendered_text_body = text_body template\<rparr>),
           strip_html = (\<lambda>h. h),
           random = (\<lambda>t. 0),
           email_from = None\<rparr>"

definition fresh :: world where
  "fresh = \<lparr>tick = 0, processed = Map.empty, status_cache = Map.empty, retry = Map.empty,
            user_cache = Map.empty, template_cache = Map.empty, circuits = Map.empty,
            calls = []\<rparr>"

definition retry_record :: "nat \<Rightarrow> RetryMetadata" where
  "retry_record n = \<lparr>retry_request_id = ''r1'', attempt_count = n, first_attempt_at = 0,
                     last_attempt_at = 0, next_retry_at = 0, errors = replicate n ''failed''\<rparr>"

definition not_found :: exn where
  "not_found = AxiosError ''Request failed with status code 404'' None (Some 404)"

definition down :: exn where
  "down = Error ''connect ECONNREFUSED'' (Some ''ECONNREFUSED'')"

section \<open>Facts about the circuit breaker\<close>

lemma tick_mutate [simp]: "tick (mutate n f w) = tick w"
  by (simp add: mutate_def split: option.splits)

lemma Date_now_mutate [simp]: "Date_now \<Omega> (mutate n f w) = Date_now \<Omega> w"
  by (simp add: Date_now_def)

lemma circuits_mutate:
  "circuits (mutate n f w) = (case circuits w n of None \<Rightarrow> circuits w | Some c \<Rightarrow> (circuits w)(n \<mapsto> f c))"
  by (simp add: mutate_def split: option.splits)

lemma failsD:
  assumes "fails operation"
  obtains e w' where "operation w = (Inl e, w')" "circuits w' = circuits w"
  using assms unfolding fails_def by blast

lemma succeedsD:
  assumes "succeeds operation"
  obtains x w' where "operation w = (Inr x, w')" "circuits w' = circuits w"
  using assms unfolding succeeds_def by blast

lemma execute_present_not_open:
  assumes "circuits w n = Some c" "state c \<noteq> OPEN"
  shows "execute \<Omega> operation n w = run_operation \<Omega> operation n w"
  using assms by (simp add: execute_def getOrCreateCircuit_def)

lemma run_operation_fail:
  assumes "operation w = (Inl e, w')" "circuits w' = circuits w" "circuits w n = Some c"
  shows "run_operation \<Omega> operation n w =
           (Inl e, w'\<lparr>circuits := (circuits w)(n \<mapsto> onFailure (Date_now \<Omega> w') c)\<rparr>)"
  using assms by (simp add: run_operation_def mutate_def)

lemma run_operation_ok:
  assumes "operation w = (Inr x, w')" "circuits w' = circuits w" "circuits w n = Some c"
  shows "run_operation \<Omega> operation n w =
           (Inr x, w'\<lparr>circuits := (circuits w)(n \<mapsto> onSuccess c)\<rparr>)"
  using assms by (simp add: run_operation_def mutate_def)

lemma closed_failures:
  assumes "circuits w n = Some c" "state c = CLOSED"
    and "\<forall>operation \<in> set ops. fails operation"
    and "failure_count c + length ops < FAILURE_THRESHOLD"
  shows "\<exists>c'. circuits (snd (execute_all \<Omega> ops n w)) n = Some c' \<and> state c' = CLOSED
            \<and> failure_count c' = failure_count c + length ops"
  using assms
proof (induction ops arbitrary: w c)
  case Nil
  then show ?case by simp
next
  case (Cons operation ops)
  from Cons.prems(3) have f: "fails operation" by simp
  obtain e w' where op: "operation w = (Inl e, w')" "circuits w' = circuits w"
    using failsD [OF f] by blast
  let ?c1 = "onFailure (Date_now \<Omega> w') c"
  let ?w1 = "w'\<lparr>circuits := (circuits w)(n \<mapsto> ?c1)\<rparr>"
  have ex: "execute \<Omega> operation n w = (Inl e, ?w1)"
    using Cons.prems(1,2) op
    by (simp add: execute_present_not_open run_operation_fail)
  have c1: "state ?c1 = CLOSED" "failure_count ?c1 = Suc (failure_count c)"
    using Cons.prems(2,4) by (simp_all add: onFailure_def Let_def)
  have "\<exists>c'. circuits (snd (execute_all \<Omega> ops n ?w1)) n = Some c' \<and> state c' = CLOSED
            \<and> failure_count c' = failure_count ?c1 + length ops"
    using Cons.prems(3,4) c1 by (intro Cons.IH) simp_all
  then show ?case using ex c1 by (simp add: Let_def)
qed


lemma execute_all_append:
  "execute_all \<Omega> (xs @ ys) n w =
     (fst (execute_all \<Omega> xs n w) @ fst (execute_all \<Omega> ys n (snd (execute_all \<Omega> xs n w))),
      snd (execute_all \<Omega> ys n (snd (execute_all \<Omega> xs n w))))"
  by (induction xs arbitrary: w) (simp_all add: Let_def)

lemma execute_created:
  assumes "getOrCreateCircuit n w0 = (c, w)"
  shows "execute \<Omega> operation n w0 = execute \<Omega> operation n w" "circuits w n = Some c"
  using assms by (auto simp: execute_def getOrCreateCircuit_def split: option.splits)

lemma execute_all_created:
  assumes "getOrCreateCircuit n w0 = (c, w)" "ops \<noteq> []"
  shows "execute_all \<Omega> ops n w0 = execute_all \<Omega> ops n w"
  using assms by (cases ops) (simp_all add: execute_created(1))

lemma closed_failure_step:
  assumes "circuits w n = Some c" "state c = CLOSED" "fails operation"
  shows "\<exists>e w'. execute \<Omega> operation n w =
            (Inl e, w'\<lparr>circuits := (circuits w)(n \<mapsto> onFailure (Date_now \<Omega> w') c)\<rparr>)"
proof -
  obtain e w' where op: "operation w = (Inl e, w')" "circuits w' = circuits w"
    using failsD [OF assms(3)] by blast
  then have "execute \<Omega> operation n w =
      (Inl e, w'\<lparr>circuits := (circuits w)(n \<mapsto> onFailure (Date_now \<Omega> w') c)\<rparr>)"
    using assms(1,2) by (simp add: execute_present_not_open run_operation_fail)
  then show ?thesis by blast
qed

lemma open_rejects:
  assumes "circuits w n = Some c" "state c = OPEN" "Date_now \<Omega> w < next_attempt_time c"
  shows "execute \<Omega> operation n w = (Inl (Error (''Circuit breaker is OPEN for '' @ n) None), w)"
  using assms by (simp add: execute_def getOrCreateCircuit_def)

lemma open_elapsed:
  assumes "circuits w n = Some c" "state c = OPEN" "next_attempt_time c \<le> Date_now \<Omega> w"
  shows "execute \<Omega> operation n w =
           run_operation \<Omega> operation n
             (w\<lparr>circuits := (circuits w)(n \<mapsto> c\<lparr>state := HALF_OPEN, success_count := 0\<rparr>)\<rparr>)"
  using assms by (simp add: execute_def getOrCreateCircuit_def mutate_def)

lemma five_failures_open:
  assumes "circuits w n = Some c" "state c = CLOSED" "failure_count c = 0"
    and "length ops = 5" "\<forall>operation \<in> set ops. fails operation"
  shows "\<exists>c5. circuits (snd (execute_all \<Omega> ops n w)) n = Some c5 \<and> state c5 = OPEN
            \<and> failure_count c5 = 5
            \<and> next_attempt_time c5 = Date_now \<Omega> (snd (execute_all \<Omega> ops n w)) + 60000"
proof -
  have "ops \<noteq> []" using assms(4) by auto
  then obtain ops4 op5 where ops0: "ops = ops4 @ [op5]"
    by (meson rev_exhaust)
  then have ops: "ops = ops4 @ [op5]" "length ops4 = 4"
    using assms(4) by simp_all
  let ?w4 = "snd (execute_all \<Omega> ops4 n w)"
  have "\<exists>c'. circuits ?w4 n = Some c' \<and> state c' = CLOSED
            \<and> failure_count c' = failure_count c + length ops4"
    using assms(1,2,3,5) ops by (intro closed_failures) (simp_all add: FAILURE_THRESHOLD_def)
  then obtain c4 where c4: "circuits ?w4 n = Some c4" "state c4 = CLOSED" "failure_count c4 = 4"
    using assms(3) ops(2) by auto
  have f5: "fails op5" using assms(5) ops(1) by simp
  obtain e w' where ex: "execute \<Omega> op5 n ?w4 =
            (Inl e, w'\<lparr>circuits := (circuits ?w4)(n \<mapsto> onFailure (Date_now \<Omega> w') c4)\<rparr>)"
    using closed_failure_step [OF c4(1,2) f5] by blast
  show ?thesis
    using ex c4
    by (simp add: ops(1) execute_all_append Let_def onFailure_def FAILURE_THRESHOLD_def
                  TIMEOUT_def Date_now_def)
qed

lemma half_open_success_step:
  assumes "circuits w n = Some c" "state c \<noteq> OPEN" "succeeds operation"
  shows "\<exists>x w'. execute \<Omega> operation n w =
            (Inr x, w'\<lparr>circuits := (circuits w)(n \<mapsto> onSuccess c)\<rparr>)"
proof -
  obtain x w' where op: "operation w = (Inr x, w')" "circuits w' = circuits w"
    using succeedsD [OF assms(3)] by blast
  then have "execute \<Omega> operation n w =
      (Inr x, w'\<lparr>circuits := (circuits w)(n \<mapsto> onSuccess c)\<rparr>)"
    using assms(1,2) by (simp add: execute_present_not_open run_operation_ok)
  then show ?thesis by blast
qed

lemma two_successes_close:
  assumes "circuits w n = Some c" "state c = HALF_OPEN"
    and "succeeds op1" "succeeds op2"
  shows "\<exists>c2. circuits (snd (execute_all \<Omega> [op1, op2] n w)) n = Some c2 \<and> state c2 = CLOSED
            \<and> failure_count c2 = 0 \<and> success_count c2 = 0"
proof -
  obtain x1 w1 where e1: "execute \<Omega> op1 n w =
            (Inr x1, w1\<lparr>circuits := (circuits w)(n \<mapsto> onSuccess c)\<rparr>)"
    using half_open_success_step [OF assms(1) _ assms(3)] assms(2) by fastforce
  let ?w1 = "w1\<lparr>circuits := (circuits w)(n \<mapsto> onSuccess c)\<rparr>"
  have s1: "circuits ?w1 n = Some (onSuccess c)" "state (onSuccess c) \<noteq> OPEN"
    using assms(2) by (simp_all add: onSuccess_def Let_def)
  obtain x2 w2 where e2: "execute \<Omega> op2 n ?w1 =
            (Inr x2, w2\<lparr>circuits := (circuits ?w1)(n \<mapsto> onSuccess (onSuccess c))\<rparr>)"
    using half_open_success_step [OF s1 assms(4)] by blast
  show ?thesis using e1 e2 assms(2)
    by (simp add: Let_def onSuccess_def SUCCESS_THRESHOLD_def)
qed


lemma half_open_failure_step:
  assumes "circuits w n = Some c" "state c = HALF_OPEN"
    and "operation w = (Inl e, w')" "circuits w' = circuits w"
  shows "execute \<Omega> operation n w =
           (Inl e, w'\<lparr>circuits := (circuits w)(n \<mapsto> onFailure (Date_now \<Omega> w') c)\<rparr>)"
    and "state (onFailure (Date_now \<Omega> w') c) = OPEN"
    and "next_attempt_time (onFailure (Date_now \<Omega> w') c) = Date_now \<Omega> w' + 60000"
  using assms
  by (simp_all add: execute_present_not_open run_operation_fail onFailure_def Let_def TIMEOUT_def)

lemmas breaker_defs = execute_def getOrCreateCircuit_def run_operation_def mutate_def
  onSuccess_def onFailure_def new_circuit_def FAILURE_THRESHOLD_def SUCCESS_THRESHOLD_def
  TIMEOUT_def Date_now_def Let_def

text \<open>
  C4.  A circuit that starts CLOSED with no failure counted stays CLOSED through four
  consecutive failing operations and is OPEN after the fifth, with
  \<open>next_attempt_time\<close> 60000 ms after the clock reading at that failure.  While it is
  OPEN and the clock is before \<open>next_attempt_time\<close>, \<^verbatim>\<open>execute\<close> throws the
  breaker-open error and leaves the world as it is, whatever the operation (the operation
  is not invoked).  A success while CLOSED leaves the circuit CLOSED with
  \<open>failure_count\<close> 0.
\<close>

theorem breaker_opens_after_five_failures:
  "(getOrCreateCircuit n w0 = (c, w) \<and> state c = CLOSED \<and> failure_count c = 0
      \<and> length ops = 5 \<and> (\<forall>operation \<in> set ops. fails operation) \<longrightarrow>
      (\<exists>c4. circuits (snd (execute_all \<Omega> (take 4 ops) n w0)) n = Some c4 \<and> state c4 = CLOSED) \<and>
      (\<exists>c5. circuits (snd (execute_all \<Omega> ops n w0)) n = Some c5 \<and> state c5 = OPEN
           \<and> next_attempt_time c5 = Date_now \<Omega> (snd (execute_all \<Omega> ops n w0)) + 60000)) \<and>
   (circuits w n = Some c \<and> state c = OPEN \<and> Date_now \<Omega> w < next_attempt_time c \<longrightarrow>
      execute \<Omega> operation n w = (Inl (Error (''Circuit breaker is OPEN for '' @ n) None), w)) \<and>
   (getOrCreateCircuit n w0 = (c, w) \<and> state c = CLOSED
      \<and> operation w = (Inr x, w') \<and> circuits w' = circuits w \<longrightarrow>
      (\<exists>c'. execute \<Omega> operation n w0 = (Inr x, w'\<lparr>circuits := (circuits w)(n \<mapsto> c')\<rparr>)
           \<and> state c' = CLOSED \<and> failure_count c' = 0))"
proof (intro conjI impI)
  assume a: "getOrCreateCircuit n w0 = (c, w) \<and> state c = CLOSED \<and> failure_count c = 0
      \<and> length ops = 5 \<and> (\<forall>operation \<in> set ops. fails operation)"
  then have w: "circuits w n = Some c" and ne: "ops \<noteq> []" "take 4 ops \<noteq> []"
    using execute_created(2) by auto
  have all4: "\<forall>operation \<in> set (take 4 ops). fails operation"
    using a by (meson in_set_takeD)
  have c: "state c = CLOSED" "failure_count c = 0" "length ops = 5"
    "\<forall>operation \<in> set ops. fails operation"
    using a by simp_all
  have "failure_count c + length (take 4 ops) < FAILURE_THRESHOLD"
    using c by (simp add: FAILURE_THRESHOLD_def)
  then have "\<exists>c4. circuits (snd (execute_all \<Omega> (take 4 ops) n w)) n = Some c4 \<and> state c4 = CLOSED
            \<and> failure_count c4 = failure_count c + length (take 4 ops)"
    by (rule closed_failures [OF w c(1) all4])
  then show "\<exists>c4. circuits (snd (execute_all \<Omega> (take 4 ops) n w0)) n = Some c4 \<and> state c4 = CLOSED"
    using a ne execute_all_created [of n w0 c w "take 4 ops" \<Omega>] by auto
  have "\<exists>c5. circuits (snd (execute_all \<Omega> ops n w)) n = Some c5 \<and> state c5 = OPEN
            \<and> failure_count c5 = 5
            \<and> next_attempt_time c5 = Date_now \<Omega> (snd (execute_all \<Omega> ops n w)) + 60000"
    by (rule five_failures_open [OF w c])
  then show "\<exists>c5. circuits (snd (execute_all \<Omega> ops n w0)) n = Some c5 \<and> state c5 = OPEN
           \<and> next_attempt_time c5 = Date_now \<Omega> (snd (execute_all \<Omega> ops n w0)) + 60000"
    using a ne execute_all_created [of n w0 c w ops \<Omega>] by auto
next
  assume "circuits w n = Some c \<and> state c = OPEN \<and> Date_now \<Omega> w < next_attempt_time c"
  then show "execute \<Omega> operation n w = (Inl (Error (''Circuit breaker is OPEN for '' @ n) None), w)"
    by (simp add: open_rejects)
next
  assume a: "getOrCreateCircuit n w0 = (c, w) \<and> state c = CLOSED
      \<and> operation w = (Inr x, w') \<and> circuits w' = circuits w"
  then have w: "circuits w n = Some c" "execute \<Omega> operation n w0 = execute \<Omega> operation n w"
    using execute_created by auto
  have "execute \<Omega> operation n w = (Inr x, w'\<lparr>circuits := (circuits w)(n \<mapsto> onSuccess c)\<rparr>)"
    using a w(1) by (simp add: execute_present_not_open run_operation_ok)
  moreover have "state (onSuccess c) = CLOSED" "failure_count (onSuccess c) = 0"
    using a by (simp_all add: onSuccess_def Let_def)
  ultimately show "\<exists>c'. execute \<Omega> operation n w0 = (Inr x, w'\<lparr>circuits := (circuits w)(n \<mapsto> c')\<rparr>)
           \<and> state c' = CLOSED \<and> failure_count c' = 0"
    using w(2) by auto
qed

theorem breaker_opens_after_five_failures_witness:
  "(getOrCreateCircuit ''x'' fresh = (new_circuit, fresh\<lparr>circuits := [''x'' \<mapsto> new_circuit]\<rparr>)
    \<and> state new_circuit = CLOSED \<and> failure_count new_circuit = 0
    \<and> fails (throw down :: unit io)
    \<and> map_option state (circuits (snd (execute_all calm
         [throw down, throw down, throw down, throw down :: unit io] ''x'' fresh)) ''x'') = Some CLOSED
    \<and> map_option state (circuits (snd (execute_all calm
         [throw down, throw down, throw down, throw down, throw down :: unit io] ''x'' fresh)) ''x'') = Some OPEN
    \<and> map_option next_attempt_time (circuits (snd (execute_all calm
         [throw down, throw down, throw down, throw down, throw down :: unit io] ''x'' fresh)) ''x'') = Some 60000)
   \<and> (Date_now calm (fresh\<lparr>circuits := [''x'' \<mapsto> new_circuit\<lparr>state := OPEN, next_attempt_time := 60000\<rparr>]\<rparr>) < 60000
    \<and> execute calm (return (7 :: nat)) ''x''
        (fresh\<lparr>circuits := [''x'' \<mapsto> new_circuit\<lparr>state := OPEN, next_attempt_time := 60000\<rparr>]\<rparr>)
      = (Inl (Error ''Circuit breaker is OPEN for x'' None),
         fresh\<lparr>circuits := [''x'' \<mapsto> new_circuit\<lparr>state := OPEN, next_attempt_time := 60000\<rparr>]\<rparr>))
   \<and> (map_option failure_count (circuits (snd (execute calm (return (7 :: nat)) ''x''
         (fresh\<lparr>circuits := [''x'' \<mapsto> new_circuit\<lparr>failure_count := 3\<rparr>]\<rparr>))) ''x'') = Some 0)"
  using breaker_opens_after_five_failures
          [where n = "''x''" and ?w0.0 = fresh and c = new_circuit
             and w = "fresh\<lparr>circuits := [''x'' \<mapsto> new_circuit]\<rparr>" and \<Omega> = calm
             and ops = "[throw down, throw down, throw down, throw down, throw down :: unit io]"]
        breaker_opens_after_five_failures
          [where n = "''x''" and c = "new_circuit\<lparr>state := OPEN, next_attempt_time := 60000\<rparr>"
             and w = "fresh\<lparr>circuits := [''x'' \<mapsto> new_circuit\<lparr>state := OPEN, next_attempt_time := 60000\<rparr>]\<rparr>"
             and \<Omega> = calm and operation = "return (7 :: nat)"]
        breaker_opens_after_five_failures
          [where n = "''x''" and c = "new_circuit\<lparr>failure_count := 3\<rparr>"
             and ?w0.0 = "fresh\<lparr>circuits := [''x'' \<mapsto> new_circuit\<lparr>failure_count := 3\<rparr>]\<rparr>"
             and w = "fresh\<lparr>circuits := [''x'' \<mapsto> new_circuit\<lparr>failure_count := 3\<rparr>]\<rparr>"
             and w' = "fresh\<lparr>circuits := [''x'' \<mapsto> new_circuit\<lparr>failure_count := 3\<rparr>]\<rparr>"
             and \<Omega> = calm and operation = "return (7 :: nat)" and x = 7]
  by (simp add: breaker_defs fails_def throw_def return_def fresh_def calm_def)

text \<open>
  C5.  When the circuit is OPEN and the clock has reached \<open>next_attempt_time\<close>,
  \<^verbatim>\<open>execute\<close> sets it to HALF_OPEN with \<open>success_count\<close> 0 and invokes the operation
  in that state.  In HALF_OPEN, two consecutive successes leave it CLOSED with both
  counters 0 (one success after entering is not enough), and one failure puts it back to
  OPEN with \<open>next_attempt_time\<close> 60000 ms after the clock reading at the failure,
  whatever \<open>failure_count\<close> is.
\<close>

theorem breaker_half_open_transitions:
  "(circuits w n = Some c \<and> state c = OPEN \<and> next_attempt_time c \<le> Date_now \<Omega> w \<longrightarrow>
      execute \<Omega> operation n w =
        run_operation \<Omega> operation n
          (w\<lparr>circuits := (circuits w)(n \<mapsto> c\<lparr>state := HALF_OPEN, success_count := 0\<rparr>)\<rparr>) \<and>
      fst (execute \<Omega> operation n w) =
        fst (operation (w\<lparr>circuits := (circuits w)(n \<mapsto> c\<lparr>state := HALF_OPEN, success_count := 0\<rparr>)\<rparr>))) \<and>
   (circuits w n = Some c \<and> state c = HALF_OPEN \<and> succeeds op1 \<and> succeeds op2 \<longrightarrow>
      (\<exists>c2. circuits (snd (execute_all \<Omega> [op1, op2] n w)) n = Some c2 \<and> state c2 = CLOSED
           \<and> failure_count c2 = 0 \<and> success_count c2 = 0)) \<and>
   (circuits w n = Some c \<and> state c = HALF_OPEN \<and> success_count c = 0 \<and> succeeds op1 \<longrightarrow>
      (\<exists>c1. circuits (snd (execute \<Omega> op1 n w)) n = Some c1 \<and> state c1 = HALF_OPEN
           \<and> success_count c1 = 1)) \<and>
   (circuits w n = Some c \<and> state c = HALF_OPEN
      \<and> operation w = (Inl e, w') \<and> circuits w' = circuits w \<longrightarrow>
      (\<exists>c'. execute \<Omega> operation n w = (Inl e, w'\<lparr>circuits := (circuits w)(n \<mapsto> c')\<rparr>)
           \<and> state c' = OPEN \<and> next_attempt_time c' = Date_now \<Omega> w' + 60000))"
proof (intro conjI impI)
  assume a: "circuits w n = Some c \<and> state c = OPEN \<and> next_attempt_time c \<le> Date_now \<Omega> w"
  let ?wh = "w\<lparr>circuits := (circuits w)(n \<mapsto> c\<lparr>state := HALF_OPEN, success_count := 0\<rparr>)\<rparr>"
  show e: "execute \<Omega> operation n w = run_operation \<Omega> operation n ?wh"
    using a by (simp add: open_elapsed)
  show "fst (execute \<Omega> operation n w) = fst (operation ?wh)"
    unfolding e by (cases "operation ?wh") (auto simp: run_operation_def split: sum.splits)
next
  assume "circuits w n = Some c \<and> state c = HALF_OPEN \<and> succeeds op1 \<and> succeeds op2"
  then have "circuits w n = Some c" "state c = HALF_OPEN" "succeeds op1" "succeeds op2"
    by simp_all
  then show "\<exists>c2. circuits (snd (execute_all \<Omega> [op1, op2] n w)) n = Some c2 \<and> state c2 = CLOSED
           \<and> failure_count c2 = 0 \<and> success_count c2 = 0"
    by (rule two_successes_close)
next
  assume a: "circuits w n = Some c \<and> state c = HALF_OPEN \<and> success_count c = 0 \<and> succeeds op1"
  then obtain x1 w1 where "execute \<Omega> op1 n w =
            (Inr x1, w1\<lparr>circuits := (circuits w)(n \<mapsto> onSuccess c)\<rparr>)"
    using half_open_success_step [of w n c op1 \<Omega>] by fastforce
  then show "\<exists>c1. circuits (snd (execute \<Omega> op1 n w)) n = Some c1 \<and> state c1 = HALF_OPEN
           \<and> success_count c1 = 1"
    using a by (simp add: onSuccess_def Let_def SUCCESS_THRESHOLD_def)
next
  assume a: "circuits w n = Some c \<and> state c = HALF_OPEN
      \<and> operation w = (Inl e, w') \<and> circuits w' = circuits w"
  then show "\<exists>c'. execute \<Omega> operation n w = (Inl e, w'\<lparr>circuits := (circuits w)(n \<mapsto> c')\<rparr>)
           \<and> state c' = OPEN \<and> next_attempt_time c' = Date_now \<Omega> w' + 60000"
    using half_open_failure_step [of w n c operation e w' \<Omega>] by auto
qed

theorem breaker_half_open_transitions_witness:
  "(next_attempt_time (new_circuit\<lparr>state := OPEN, next_attempt_time := 60000\<rparr>)
      \<le> Date_now calm (fresh\<lparr>tick := 60, circuits := [''x'' \<mapsto> new_circuit\<lparr>state := OPEN, next_attempt_time := 60000\<rparr>]\<rparr>)
    \<and> map_option state (circuits (snd (execute calm (return (7 :: nat)) ''x''
         (fresh\<lparr>tick := 60, circuits := [''x'' \<mapsto> new_circuit\<lparr>state := OPEN, next_attempt_time := 60000\<rparr>]\<rparr>))) ''x'')
       = Some HALF_OPEN
    \<and> fst (execute calm (return (7 :: nat)) ''x''
         (fresh\<lparr>tick := 60, circuits := [''x'' \<mapsto> new_circuit\<lparr>state := OPEN, next_attempt_time := 60000\<rparr>]\<rparr>))
       = Inr 7)
   \<and> (succeeds (return (7 :: nat))
    \<and> map_option state (circuits (snd (execute_all calm [return (7 :: nat), return 8] ''x''
         (fresh\<lparr>circuits := [''x'' \<mapsto> new_circuit\<lparr>state := HALF_OPEN, failure_count := 5\<rparr>]\<rparr>))) ''x'')
       = Some CLOSED
    \<and> map_option state (circuits (snd (execute calm (return (7 :: nat)) ''x''
         (fresh\<lparr>circuits := [''x'' \<mapsto> new_circuit\<lparr>state := HALF_OPEN, failure_count := 5\<rparr>]\<rparr>))) ''x'')
       = Some HALF_OPEN)
   \<and> (map_option (\<lambda>c. (state c, next_attempt_time c))
        (circuits (snd (execute calm (throw down :: nat io) ''x''
           (fresh\<lparr>tick := 70, circuits := [''x'' \<mapsto> new_circuit\<lparr>state := HALF_OPEN\<rparr>]\<rparr>))) ''x'')
       = Some (OPEN, 130000))"
  using breaker_half_open_transitions
          [where n = "''x''" and c = "new_circuit\<lparr>state := OPEN, next_attempt_time := 60000\<rparr>"
             and w = "fresh\<lparr>tick := 60, circuits := [''x'' \<mapsto> new_circuit\<lparr>state := OPEN, next_attempt_time := 60000\<rparr>]\<rparr>"
             and \<Omega> = calm and operation = "return (7 :: nat)"]
        breaker_half_open_transitions
          [where n = "''x''" and c = "new_circuit\<lparr>state := HALF_OPEN, failure_count := 5\<rparr>"
             and w = "fresh\<lparr>circuits := [''x'' \<mapsto> new_circuit\<lparr>state := HALF_OPEN, failure_count := 5\<rparr>]\<rparr>"
             and \<Omega> = calm and ?op1.0 = "return (7 :: nat)" and ?op2.0 = "return (8 :: nat)"]
        breaker_half_open_transitions
          [where n = "''x''" and c = "new_circuit\<lparr>state := HALF_OPEN\<rparr>"
             and w = "fresh\<lparr>tick := 70, circuits := [''x'' \<mapsto> new_circuit\<lparr>state := HALF_OPEN\<rparr>]\<rparr>"
             and w' = "fresh\<lparr>tick := 70, circuits := [''x'' \<mapsto> new_circuit\<lparr>state := HALF_OPEN\<rparr>]\<rparr>"
             and \<Omega> = calm and operation = "throw down :: nat io" and e = down]
  by (simp add: breaker_defs succeeds_def throw_def return_def fresh_def calm_def)

section \<open>Facts about the asynchronous functions\<close>

lemma await_Inr: "m w = (Inr x, w') \<Longrightarrow> await m k w = k x w'"
  by (simp add: await_def)

lemma await_Inl: "m w = (Inl e, w') \<Longrightarrow> await m k w = (Inl e, w')"
  by (simp add: await_def)

lemma try_catch_Inr: "m w = (Inr x, w') \<Longrightarrow> try_catch m h w = (Inr x, w')"
  by (simp add: try_catch_def)

lemma try_catch_Inl: "m w = (Inl e, w') \<Longrightarrow> try_catch m h w = h e w'"
  by (simp add: try_catch_def)

lemma keeps_return: "keeps f (return x)"
  by (simp add: keeps_def return_def)

lemma keeps_return_fun: "keeps f (\<lambda>w. return (g w) w)"
  by (simp add: keeps_def return_def)

lemma keeps_throw: "keeps f (throw e)"
  by (simp add: keeps_def throw_def)

lemma keeps_await:
  assumes "keeps f m" "\<And>x. keeps f (k x)"
  shows "keeps f (await m k)"
proof -
  have "f (snd (await m k w)) = f w" for w
  proof (cases "m w")
    case (Pair r w')
    have w': "f w' = f w" using assms(1) Pair by (metis keeps_def snd_conv)
    show ?thesis
    proof (cases r)
      case (Inl e)
      then show ?thesis using Pair w' by (simp add: await_def)
    next
      case (Inr x)
      have "f (snd (k x w')) = f w'" using assms(2) by (simp add: keeps_def)
      then show ?thesis using Pair Inr w' by (simp add: await_def)
    qed
  qed
  then show ?thesis by (simp add: keeps_def)
qed

lemma keeps_try_catch:
  assumes "keeps f m" "\<And>e. keeps f (h e)"
  shows "keeps f (try_catch m h)"
proof -
  have "f (snd (try_catch m h w)) = f w" for w
  proof (cases "m w")
    case (Pair r w')
    have w': "f w' = f w" using assms(1) Pair by (metis keeps_def snd_conv)
    show ?thesis
    proof (cases r)
      case (Inr x)
      then show ?thesis using Pair w' by (simp add: try_catch_def)
    next
      case (Inl e)
      have "f (snd (h e w')) = f w'" using assms(2) by (simp add: keeps_def)
      then show ?thesis using Pair Inl w' by (simp add: try_catch_def)
    qed
  qed
  then show ?thesis by (simp add: keeps_def)
qed

lemma keeps_locally:
  assumes "\<And>v. keeps f (m v)"
  shows "keeps f (\<lambda>w. m (g w) w)"
  using assms by (simp add: keeps_def)

lemma keeps_redis_get:
  assumes "\<And>w. f (step w) = f w"
  shows "keeps f (redis_get \<Omega> family key)"
  using assms
  by (simp add: keeps_def redis_get_def client_get_def try_catch_def return_def split: option.splits)

lemma keeps_redis_set:
  assumes "\<And>w. f (step w) = f w" "\<And>g w. f (family_update g w) = f w"
  shows "keeps f (redis_set \<Omega> family_update key v ttl)"
  using assms
  by (simp add: keeps_def redis_set_def client_put_def try_catch_def throw_def
           split: option.splits nat.splits)

lemma keeps_emit:
  assumes "\<And>w. f (step w) = f w" "\<And>g w. f (calls_update g w) = f w"
  shows "keeps f (emit \<Omega> u)"
  using assms by (simp add: keeps_def emit_def)

lemma keeps_updateStatus:
  assumes "\<And>w. f (step w) = f w" "\<And>g w. f (calls_update g w) = f w"
    "\<And>g w. f (status_cache_update g w) = f w"
  shows "keeps f (updateStatus \<Omega> nid st err)"
proof -
  have "keeps f (try_catch (await (emit \<Omega> u) (\<lambda>_. redis_set \<Omega> status_cache_update nid u (Some 3600)))
                   (\<lambda>e. return ()))" for u
    by (intro keeps_try_catch keeps_await keeps_emit keeps_redis_set keeps_return assms)
  then show ?thesis
    by (simp add: keeps_def updateStatus_def Let_def)
qed

lemma keeps_getUserById:
  assumes "\<And>w. f (step w) = f w" "\<And>g w. f (calls_update g w) = f w"
    "\<And>g w. f (user_cache_update g w) = f w"
  shows "keeps f (getUserById \<Omega> uid)"
proof -
  have h: "keeps f (http_get_user \<Omega> uid)"
    using assms by (simp add: keeps_def http_get_user_def)
  show ?thesis
    unfolding getUserById_def
    by (intro keeps_try_catch keeps_await keeps_redis_get)
       (auto intro!: keeps_await keeps_return keeps_throw keeps_redis_set h assms
             split: option.splits exn.splits)
qed

lemma keeps_getTemplate:
  assumes "\<And>w. f (step w) = f w" "\<And>g w. f (calls_update g w) = f w"
    "\<And>g w. f (template_cache_update g w) = f w"
  shows "keeps f (getTemplate \<Omega> tc)"
proof -
  have h: "keeps f (http_get_template \<Omega> tc)"
    using assms by (simp add: keeps_def http_get_template_def)
  show ?thesis
    unfolding getTemplate_def
    by (intro keeps_try_catch keeps_await keeps_redis_get)
       (auto intro!: keeps_await keeps_return keeps_throw keeps_redis_set h assms
             split: option.splits)
qed

lemma keeps_renderTemplate: "keeps f (renderTemplate \<Omega> t vs)"
  by (simp add: renderTemplate_def keeps_return keeps_throw split: sum.splits)

lemma keeps_mutate:
  assumes "\<And>g w. f (circuits_update g w) = f w"
  shows "f (mutate n h w) = f w"
  using assms by (simp add: mutate_def split: option.splits)

lemma keeps_execute:
  assumes "keeps f operation" "\<And>g w. f (circuits_update g w) = f w"
  shows "keeps f (execute \<Omega> operation n)"
proof -
  have op: "f (snd (operation w)) = f w" for w
    using assms(1) by (simp add: keeps_def)
  have run: "f (snd (run_operation \<Omega> operation n w)) = f w" for w
    using op [of w]
    by (cases "operation w") (auto simp: run_operation_def keeps_mutate assms(2) split: sum.splits)
  show ?thesis
    by (simp add: keeps_def execute_def getOrCreateCircuit_def run keeps_mutate assms(2)
             split: option.splits)
qed

lemma keeps_send_operation:
  assumes "\<And>w. f (step w) = f w" "\<And>g w. f (calls_update g w) = f w"
  shows "keeps f (send_operation \<Omega> payload)"
proof -
  have h: "keeps f (sendMail \<Omega> opts)" for opts
    using assms by (simp add: keeps_def sendMail_def)
  show ?thesis
    unfolding send_operation_def
    by (intro keeps_try_catch keeps_await keeps_return_fun h)
qed

lemma keeps_sendEmail:
  assumes "\<And>w. f (step w) = f w" "\<And>g w. f (calls_update g w) = f w"
    "\<And>g w. f (circuits_update g w) = f w"
  shows "keeps f (sendEmail \<Omega> payload)"
  unfolding sendEmail_def
  by (intro keeps_execute keeps_send_operation assms)

lemma retry_frame:
  "retry (step w) = retry w" "retry (calls_update g w) = retry w"
  "retry (status_cache_update g1 w) = retry w" "retry (user_cache_update g2 w) = retry w"
  "retry (template_cache_update g3 w) = retry w" "retry (circuits_update g4 w) = retry w"
  "retry (processed_update g5 w) = retry w"
  by (simp_all add: step_def)

lemma keeps_retry_deliver: "keeps retry (deliver \<Omega> payload)"
  unfolding deliver_def after_lookup_def markAsProcessed_def
  by (intro keeps_await keeps_updateStatus keeps_getUserById retry_frame)
     (auto intro!: keeps_await keeps_updateStatus keeps_getTemplate keeps_renderTemplate
                   keeps_sendEmail keeps_redis_set keeps_return keeps_return_fun keeps_throw
           simp: retry_frame split: option.splits)

lemma keeps_retry_process: "keeps retry (processEmailNotification \<Omega> payload)"
  unfolding processEmailNotification_def attempt_def on_error_def checkIdempotency_def
  by (intro keeps_try_catch keeps_await keeps_redis_get keeps_updateStatus retry_frame)
     (auto intro!: keeps_return keeps_return_fun keeps_retry_deliver)

section \<open>Facts about the email service\<close>

lemma redis_get_result:
  "redis_get \<Omega> family key w =
     (Inr (case redis_fault \<Omega> (tick w) of
             Some e \<Rightarrow> None
           | None \<Rightarrow> live (Date_now \<Omega> w) (family w key)), step w)"
  by (simp add: redis_get_def client_get_def try_catch_def return_def split: option.splits)

lemma updateStatus_returns:
  "\<exists>w'. updateStatus \<Omega> nid st err w = (Inr (), w')
      \<and> calls w' = calls w @ [Emit \<lparr>notification_id = nid, status = st,
                                     status_timestamp = Date_now \<Omega> w, status_error = err\<rparr>]"
  by (simp add: updateStatus_def Let_def try_catch_def await_def emit_def redis_set_def
                client_put_def return_def throw_def step_def
           split: option.splits)

lemma on_error_returns:
  "\<exists>w'. on_error \<Omega> payload e w =
          (Inr \<lparr>success = False, message_id = None, error = Some (errorMessage e),
                timestamp = Date_now \<Omega> w'\<rparr>, w')
      \<and> calls w' = calls w @ [Emit \<lparr>notification_id = request_id payload, status = FAILED,
                                     status_timestamp = Date_now \<Omega> w,
                                     status_error = Some (errorMessage e)\<rparr>]"
proof -
  obtain w' where u: "updateStatus \<Omega> (request_id payload) FAILED (Some (errorMessage e)) w = (Inr (), w')"
    "calls w' = calls w @ [Emit \<lparr>notification_id = request_id payload, status = FAILED,
                                     status_timestamp = Date_now \<Omega> w,
                                     status_error = Some (errorMessage e)\<rparr>]"
    using updateStatus_returns by blast
  have "on_error \<Omega> payload e w =
          (Inr \<lparr>success = False, message_id = None, error = Some (errorMessage e),
                timestamp = Date_now \<Omega> w'\<rparr>, w')"
    using u(1) by (simp add: on_error_def await_def return_def)
  then show ?thesis using u(2) by blast
qed

lemmas run_defs =
  processEmailNotification_def attempt_def deliver_def after_lookup_def checkIdempotency_def redis_get_def
  client_get_def try_catch_def await_def return_def throw_def step_def live_def Date_now_def
  updateStatus_def emit_def redis_set_def client_put_def getUserById_def http_get_user_def
  getTemplate_def http_get_template_def renderTemplate_def sendEmail_def execute_def
  getOrCreateCircuit_def run_operation_def send_operation_def sendMail_def mail_options_def
  mutate_def onSuccess_def onFailure_def new_circuit_def markAsProcessed_def on_error_def
  handleEmailNotification_def EmailService_shouldRetry_def getRetryCount_def channel_ack_def
  channel_nack_def MAX_RETRY_ATTEMPTS_def FAILURE_THRESHOLD_def SUCCESS_THRESHOLD_def
  retryableErrors_def
  TIMEOUT_def Let_def

lemmas fixture_defs = calm_def fresh_def r1_def alice_def welcome_template_def down_def

text \<open>
  C7.  \<^verbatim>\<open>processEmailNotification\<close> returns a result for every payload, in all
  surroundings: it never rejects.  When the \<^verbatim>\<open>try\<close> block throws at any step, the call
  emits a FAILED status carrying the error's message and returns
  \<open>success = False\<close> with that message as \<open>error\<close>.
\<close>

theorem errors_are_caught:
  "(\<exists>r w'. processEmailNotification \<Omega> payload w = (Inr r, w')) \<and>
   (\<forall>e w1. attempt \<Omega> payload w = (Inl e, w1) \<longrightarrow>
      (\<exists>w'. processEmailNotification \<Omega> payload w =
               (Inr \<lparr>success = False, message_id = None, error = Some (errorMessage e),
                     timestamp = Date_now \<Omega> w'\<rparr>, w')
           \<and> calls w' = calls w1 @ [Emit \<lparr>notification_id = request_id payload, status = FAILED,
                                          status_timestamp = Date_now \<Omega> w1,
                                          status_error = Some (errorMessage e)\<rparr>]))"
proof (intro conjI allI impI)
  show "\<exists>r w'. processEmailNotification \<Omega> payload w = (Inr r, w')"
  proof (cases "attempt \<Omega> payload w")
    case (Pair r w1)
    show ?thesis
    proof (cases r)
      case (Inr x)
      then show ?thesis using Pair
        by (simp add: processEmailNotification_def try_catch_def)
    next
      case (Inl e)
      then show ?thesis using Pair on_error_returns [of \<Omega> payload e w1]
        by (auto simp: processEmailNotification_def try_catch_def)
    qed
  qed
next
  fix e w1 assume "attempt \<Omega> payload w = (Inl e, w1)"
  then have "processEmailNotification \<Omega> payload w = on_error \<Omega> payload e w1"
    by (simp add: processEmailNotification_def try_catch_def)
  then show "\<exists>w'. processEmailNotification \<Omega> payload w =
               (Inr \<lparr>success = False, message_id = None, error = Some (errorMessage e),
                     timestamp = Date_now \<Omega> w'\<rparr>, w')
           \<and> calls w' = calls w1 @ [Emit \<lparr>notification_id = request_id payload, status = FAILED,
                                          status_timestamp = Date_now \<Omega> w1,
                                          status_error = Some (errorMessage e)\<rparr>]"
    using on_error_returns [of \<Omega> payload e w1] by simp
qed

theorem errors_are_caught_witness:
  "attempt (calm\<lparr>user_api := (\<lambda>t uid. Inl down)\<rparr>) r1 fresh
     = (Inl down, snd (attempt (calm\<lparr>user_api := (\<lambda>t uid. Inl down)\<rparr>) r1 fresh))
   \<and> fst (processEmailNotification (calm\<lparr>user_api := (\<lambda>t uid. Inl down)\<rparr>) r1 fresh)
     = Inr \<lparr>success = False, message_id = None, error = Some ''connect ECONNREFUSED'',
            timestamp = 7000\<rparr>"
  using errors_are_caught [of "calm\<lparr>user_api := (\<lambda>t uid. Inl down)\<rparr>" r1 fresh]
  by (simp add: run_defs fixture_defs)

lemma render_throw_is_caught:
  "fst (processEmailNotification
          (calm\<lparr>render := (\<lambda>template vars. Inl (Error ''Invalid regular expression'' None))\<rparr>)
          r1 fresh)
     = Inr \<lparr>success = False, message_id = None, error = Some ''Invalid regular expression'',
            timestamp = 11000\<rparr>"
  by (simp add: run_defs fixture_defs)

lemma breaker_open_is_caught:
  "fst (processEmailNotification calm r1
          (fresh\<lparr>circuits := [''email_send'' \<mapsto>
                     new_circuit\<lparr>state := OPEN, next_attempt_time := 60000\<rparr>]\<rparr>))
     = Inr \<lparr>success = False, message_id = None,
            error = Some ''Circuit breaker is OPEN for email_send'', timestamp = 11000\<rparr>
   \<and> filter (\<lambda>ev. case ev of SendMail opts \<Rightarrow> True | _ \<Rightarrow> False)
        (calls (snd (processEmailNotification calm r1
          (fresh\<lparr>circuits := [''email_send'' \<mapsto>
                     new_circuit\<lparr>state := OPEN, next_attempt_time := 60000\<rparr>]\<rparr>)))) = []"
  by (simp add: run_defs fixture_defs)

lemma pipeline_never_records_retry:
  "retry (snd (processEmailNotification \<Omega> payload w)) = retry w"
  using keeps_retry_process by (simp add: keeps_def)

lemma keeps_retry_handle: "keeps retry (handleEmailNotification \<Omega> payload)"
proof -
  have a: "keeps retry channel_ack" "keeps retry (channel_nack b)" for b
    by (simp_all add: keeps_def channel_ack_def channel_nack_def)
  have g: "keeps retry (getRetryCount \<Omega> rid)" for rid
    unfolding getRetryCount_def
    by (intro keeps_await keeps_redis_get retry_frame)
       (auto intro!: keeps_return split: option.splits)
  show ?thesis
    unfolding handleEmailNotification_def EmailService_shouldRetry_def
    by (intro keeps_try_catch keeps_await keeps_retry_process)
       (auto intro!: keeps_await keeps_return a g)
qed

lemma handler_never_records_retry:
  "retry (snd (handleEmailNotification \<Omega> payload w)) = retry w"
  using keeps_retry_handle by (simp add: keeps_def)

text \<open>
  C3.  The transport refuses every submission; request \<open>r1\<close> is processed from the empty
  world.  The call returns \<open>success = False\<close> and emits one FAILED status (after the
  PENDING one), and the circuit stays CLOSED.  No retry record exists for \<open>r1\<close>
  afterwards, and the attempt count read back is 0: nothing in the pipeline calls
  \<^verbatim>\<open>recordRetry\<close>.  The fourth delivery of the message is requeued like the first.
\<close>

theorem failed_send_leaves_retry_record_absent:
  "fst (processEmailNotification (calm\<lparr>transport := (\<lambda>t opts. Inl down)\<rparr>) r1 fresh)
     = Inr \<lparr>success = False, message_id = None,
            error = Some ''connect ECONNREFUSED (Retryable: true)'', timestamp = 10000\<rparr>
   \<and> calls (snd (processEmailNotification (calm\<lparr>transport := (\<lambda>t opts. Inl down)\<rparr>) r1 fresh))
     = [Emit \<lparr>notification_id = ''r1'', status = PENDING, status_timestamp = 1000,
              status_error = None\<rparr>,
        HttpUser ''u1'', HttpTemplate ''welcome'',
        SendMail \<lparr>mail_from = ''noreply@notifications.com'', mail_to = ''alice@example.com'',
                  mail_subject_line = ''Welcome'', mail_html = ''<h1>Hello</h1>'',
                  mail_text = ''<h1>Hello</h1>'', mail_correlation = ''r1''\<rparr>,
        Emit \<lparr>notification_id = ''r1'', status = FAILED, status_timestamp = 10000,
              status_error = Some ''connect ECONNREFUSED (Retryable: true)''\<rparr>]
   \<and> map_option state
        (circuits (snd (processEmailNotification (calm\<lparr>transport := (\<lambda>t opts. Inl down)\<rparr>) r1 fresh))
           ''email_send'') = Some CLOSED
   \<and> retry (snd (processEmailNotification (calm\<lparr>transport := (\<lambda>t opts. Inl down)\<rparr>) r1 fresh)) ''r1''
     = None
   \<and> fst (getRetryCount (calm\<lparr>transport := (\<lambda>t opts. Inl down)\<rparr>) ''r1''
        (snd (processEmailNotification (calm\<lparr>transport := (\<lambda>t opts. Inl down)\<rparr>) r1 fresh)))
     = Inr 0
   \<and> last (calls (snd (handleEmailNotification (calm\<lparr>transport := (\<lambda>t opts. Inl down)\<rparr>) r1
        (snd (handleEmailNotification (calm\<lparr>transport := (\<lambda>t opts. Inl down)\<rparr>) r1
        (snd (handleEmailNotification (calm\<lparr>transport := (\<lambda>t opts. Inl down)\<rparr>) r1
        (snd (handleEmailNotification (calm\<lparr>transport := (\<lambda>t opts. Inl down)\<rparr>) r1 fresh)))))))))
     = Nack True"
  by (simp add: run_defs fixture_defs)

lemma send_operation_returns:
  "\<exists>r. send_operation \<Omega> payload w =
          (Inr r, step (w\<lparr>calls := calls w @ [SendMail (mail_options \<Omega> payload)]\<rparr>))
     \<and> (\<forall>e. transport \<Omega> (tick w) (mail_options \<Omega> payload) = Inl e \<longrightarrow>
          r = \<lparr>success = False, message_id = None,
               error = Some (errorMessage e @ '' (Retryable: ''
                               @ (if isRetryableError e then ''true'' else ''false'') @ '')''),
               timestamp = Date_now \<Omega> (step w)\<rparr>)"
  by (cases "transport \<Omega> (tick w) (mail_options \<Omega> payload)")
     (simp_all add: send_operation_def try_catch_def await_def sendMail_def return_def
                    step_def Date_now_def)

text \<open>
  C6.  \<^verbatim>\<open>sendEmail\<close> on a circuit \<^verbatim>\<open>email_send\<close> that is CLOSED (or not yet created)
  always returns: an error thrown by the transport is caught inside the wrapped operation
  and becomes the result \<open>success = False\<close> with the error text.  The breaker therefore
  records a success: afterwards the circuit is CLOSED with \<open>failure_count\<close> 0.
\<close>

theorem transport_failures_never_trip_breaker:
  assumes "state (fst (getOrCreateCircuit ''email_send'' w)) = CLOSED"
  shows "\<exists>r w' c'. sendEmail \<Omega> payload w = (Inr r, w')
           \<and> circuits w' ''email_send'' = Some c' \<and> state c' = CLOSED \<and> failure_count c' = 0
           \<and> (\<forall>e. transport \<Omega> (tick w) (mail_options \<Omega> payload) = Inl e \<longrightarrow>
                r = \<lparr>success = False, message_id = None,
                     error = Some (errorMessage e @ '' (Retryable: ''
                                     @ (if isRetryableError e then ''true'' else ''false'') @ '')''),
                     timestamp = Date_now \<Omega> (step w)\<rparr>)"
proof -
  obtain c w1 where g: "getOrCreateCircuit ''email_send'' w = (c, w1)"
    by (cases "getOrCreateCircuit ''email_send'' w")
  then have c: "state c = CLOSED" "circuits w1 ''email_send'' = Some c" "tick w1 = tick w"
    using assms by (auto simp: getOrCreateCircuit_def split: option.splits)
  obtain r where r: "send_operation \<Omega> payload w1 =
          (Inr r, step (w1\<lparr>calls := calls w1 @ [SendMail (mail_options \<Omega> payload)]\<rparr>))"
     "\<forall>e. transport \<Omega> (tick w1) (mail_options \<Omega> payload) = Inl e \<longrightarrow>
          r = \<lparr>success = False, message_id = None,
               error = Some (errorMessage e @ '' (Retryable: ''
                               @ (if isRetryableError e then ''true'' else ''false'') @ '')''),
               timestamp = Date_now \<Omega> (step w1)\<rparr>"
    using send_operation_returns [of \<Omega> payload w1] by blast
  let ?w2 = "step (w1\<lparr>calls := calls w1 @ [SendMail (mail_options \<Omega> payload)]\<rparr>)"
  have same: "circuits ?w2 = circuits w1" by (simp add: step_def)
  have "execute \<Omega> (send_operation \<Omega> payload) ''email_send'' w1 =
          (Inr r, ?w2\<lparr>circuits := (circuits w1)(''email_send'' \<mapsto> onSuccess c)\<rparr>)"
    using c r(1) same by (simp add: execute_present_not_open run_operation_ok)
  then have e: "sendEmail \<Omega> payload w =
          (Inr r, ?w2\<lparr>circuits := (circuits w1)(''email_send'' \<mapsto> onSuccess c)\<rparr>)"
    using g by (simp add: sendEmail_def execute_created(1))
  have s: "state (onSuccess c) = CLOSED" "failure_count (onSuccess c) = 0"
    using c(1) by (simp_all add: onSuccess_def Let_def)
  have d: "Date_now \<Omega> (step w1) = Date_now \<Omega> (step w)"
    using c(3) by (simp add: Date_now_def step_def)
  show ?thesis
    using e s r(2) c(3) d by auto
qed

theorem transport_failures_never_trip_breaker_witness:
  "state (fst (getOrCreateCircuit ''email_send'' fresh)) = CLOSED
   \<and> sendEmail (calm\<lparr>transport := (\<lambda>t opts. Inl down)\<rparr>)
        \<lparr>to_address = ''alice@example.com'', subject_line = ''Welcome'', html = ''<p>Hi</p>'',
         text_alternative = Some ''Hi'', correlationId = ''r1''\<rparr> fresh
     = (Inr \<lparr>success = False, message_id = None,
             error = Some ''connect ECONNREFUSED (Retryable: true)'', timestamp = 1000\<rparr>,
        fresh\<lparr>tick := 1,
              circuits := [''email_send'' \<mapsto> new_circuit],
              calls := [SendMail \<lparr>mail_from = ''noreply@notifications.com'',
                                  mail_to = ''alice@example.com'', mail_subject_line = ''Welcome'',
                                  mail_html = ''<p>Hi</p>'', mail_text = ''Hi'',
                                  mail_correlation = ''r1''\<rparr>]\<rparr>)"
  using transport_failures_never_trip_breaker
          [of fresh "calm\<lparr>transport := (\<lambda>t opts. Inl down)\<rparr>"
              "\<lparr>to_address = ''alice@example.com'', subject_line = ''Welcome'', html = ''<p>Hi</p>'',
                text_alternative = Some ''Hi'', correlationId = ''r1''\<rparr>"]
  by (simp add: run_defs fixture_defs)

section \<open>Facts about double-precision rounding\<close>

lemma rne_of_int [simp]: "rne (of_int m) = m"
  by (simp add: rne_def)

lemma rne_bounds: "of_int (rne q) \<le> q + 1 / 2" "q - 1 / 2 \<le> of_int (rne q)"
  unfolding rne_def Let_def by (auto; linarith)+

lemma rne_mono:
  assumes "q \<le> q'"
  shows "rne q \<le> rne q'"
proof (cases "\<lfloor>q\<rfloor> = \<lfloor>q'\<rfloor>")
  case True
  then show ?thesis using assms by (auto simp: rne_def Let_def)
next
  case False
  then have "\<lfloor>q\<rfloor> + 1 \<le> \<lfloor>q'\<rfloor>"
    using assms floor_mono [of q q'] by linarith
  moreover have "rne q \<le> \<lfloor>q\<rfloor> + 1" "\<lfloor>q'\<rfloor> \<le> rne q'"
    by (auto simp: rne_def Let_def)
  ultimately show ?thesis by linarith
qed

lemma two_powr: "(2::real) powr (real_of_int e) = 2 powi e"
  by (simp add: powr_real_of_int')

lemma log_two_powi: "log 2 (2 powi e) = real_of_int e"
  by (simp add: two_powr [symmetric])

lemma expo_eq:
  assumes "2 powi e \<le> x" "x < 2 powi (e + 1)" "- 1022 \<le> e"
  shows "expo x = e"
proof -
  have pos: "0 < x" using assms(1) by (smt (verit) zero_less_power_int)
  have "2 powr (real_of_int e) \<le> x" "x < 2 powr (real_of_int (e + 1))"
    using assms by (simp_all only: two_powr)
  then have "\<lfloor>log 2 x\<rfloor> = e"
    using pos by (subst floor_log_eq_powr_iff) simp_all
  then show ?thesis using assms(3) pos by (simp add: expo_def)
qed

lemma expo_subnormal:
  assumes "0 < x" "x < 2 powi (- 1022)"
  shows "expo x = - 1022"
proof -
  have "log 2 x < log 2 (2 powi (- 1022))"
    using assms by (subst log_less_cancel_iff) simp_all
  also have "\<dots> = - 1022"
    by (simp only: log_two_powi)
  finally have "\<lfloor>log 2 x\<rfloor> \<le> - 1022" by linarith
  then show ?thesis using assms by (simp add: expo_def)
qed


lemma expo_props:
  assumes "0 < x"
  shows "- 1022 \<le> expo x" "x < 2 powi (expo x + 1)" "2 powi (expo x) \<le> x \<or> expo x = - 1022"
proof -
  let ?k = "\<lfloor>log 2 x\<rfloor>"
  have k: "2 powr (real_of_int ?k) \<le> x" "x < 2 powr (real_of_int (?k + 1))"
    using floor_log_eq_powr_iff [of x 2 ?k] assms by simp_all
  then have k': "2 powi ?k \<le> x" "x < 2 powi (?k + 1)"
    by (simp_all only: two_powr)
  show "- 1022 \<le> expo x" by (simp add: expo_def)
  have "?k + 1 \<le> expo x + 1" using assms by (simp add: expo_def)
  then have "(2::real) powi (?k + 1) \<le> 2 powi (expo x + 1)"
    by (intro power_int_increasing) simp_all
  then show "x < 2 powi (expo x + 1)" using k'(2) by linarith
  show "2 powi (expo x) \<le> x \<or> expo x = - 1022"
    using k'(1) assms by (auto simp: expo_def max_def)
qed

lemma expo_mono:
  assumes "0 < x" "x \<le> y"
  shows "expo x \<le> expo y"
proof -
  have "log 2 x \<le> log 2 y" using assms by simp
  then have "\<lfloor>log 2 x\<rfloor> \<le> \<lfloor>log 2 y\<rfloor>" by (rule floor_mono)
  then show ?thesis using assms by (simp add: expo_def)
qed

lemma fl_pos:
  assumes "0 < x"
  shows "fl x = of_int (rne (x / 2 powi (expo x - 52))) * 2 powi (expo x - 52)"
  using assms by (simp add: fl_def)

lemma fl_binade:
  assumes "2 powi e \<le> x" "x < 2 powi (e + 1)" "- 1022 \<le> e"
  shows "fl x = of_int (rne (x / 2 powi (e - 52))) * 2 powi (e - 52)"
proof -
  have "0 < x" using assms(1) by (smt (verit) zero_less_power_int)
  then show ?thesis using expo_eq [OF assms] by (simp add: fl_pos)
qed

lemma fl_nonneg:
  assumes "0 \<le> x"
  shows "0 \<le> fl x"
proof (cases "x = 0")
  case True
  then show ?thesis by (simp add: fl_def)
next
  case False
  then have "0 \<le> x / 2 powi (expo x - 52)" using assms by simp
  then have "rne 0 \<le> rne (x / 2 powi (expo x - 52))" by (rule rne_mono)
  then have "0 \<le> rne (x / 2 powi (expo x - 52))" using rne_of_int [of 0] by simp
  then show ?thesis using False by (simp add: fl_def)
qed

lemma fl_upper:
  assumes "0 < x"
  shows "fl x \<le> 2 powi (expo x + 1)"
proof -
  let ?u = "(2::real) powi (expo x - 52)"
  have u: "0 < ?u" by simp
  have "x < 2 powi (expo x + 1)" using expo_props(2) [OF assms] .
  also have "(2::real) powi (expo x + 1) = 2 ^ 53 * ?u"
    by (simp add: power_int_add power_int_diff)
  finally have "x / ?u \<le> of_int (2 ^ 53)"
    using u by (simp add: pos_divide_le_eq)
  then have "rne (x / ?u) \<le> rne (of_int (2 ^ 53))" by (rule rne_mono)
  then have "rne (x / ?u) \<le> 2 ^ 53" by (simp only: rne_of_int)
  then have "real_of_int (rne (x / ?u)) \<le> 2 ^ 53"
    by (metis of_int_le_iff of_int_numeral of_int_power)
  then have "real_of_int (rne (x / ?u)) * ?u \<le> 2 ^ 53 * ?u"
    using u by (simp only: mult_le_cancel_right_pos)
  then show ?thesis
    using assms by (simp add: fl_pos power_int_add power_int_diff)
qed

lemma fl_lower:
  assumes "0 < x" "2 powi (expo x) \<le> x"
  shows "2 powi (expo x) \<le> fl x"
proof -
  let ?u = "(2::real) powi (expo x - 52)"
  have u: "0 < ?u" by simp
  have e: "(2::real) powi (expo x) = 2 ^ 52 * ?u"
    by (simp add: power_int_diff)
  have "of_int (2 ^ 52) \<le> x / ?u"
    using assms(2) u unfolding e by (simp add: pos_le_divide_eq)
  then have "rne (of_int (2 ^ 52)) \<le> rne (x / ?u)" by (rule rne_mono)
  then have "2 ^ 52 \<le> rne (x / ?u)" by (simp only: rne_of_int)
  then have "2 ^ 52 \<le> real_of_int (rne (x / ?u))"
    by (metis of_int_le_iff of_int_numeral of_int_power)
  then have "2 ^ 52 * ?u \<le> real_of_int (rne (x / ?u)) * ?u"
    using u by (simp only: mult_le_cancel_right_pos)
  then show ?thesis
    using assms(1) unfolding e by (simp add: fl_pos)
qed

lemma fl_mono:
  assumes "0 \<le> x" "x \<le> y"
  shows "fl x \<le> fl y"
proof (cases "x = 0")
  case True
  then show ?thesis using assms fl_nonneg [of y] by (simp add: fl_def)
next
  case False
  then have x: "0 < x" and y: "0 < y" using assms by simp_all
  have le: "expo x \<le> expo y" using x assms(2) by (rule expo_mono)
  show ?thesis
  proof (cases "expo x = expo y")
    case True
    let ?u = "(2::real) powi (expo y - 52)"
    have "x / ?u \<le> y / ?u" using assms(2) by (simp add: divide_right_mono)
    then have "rne (x / ?u) \<le> rne (y / ?u)" by (rule rne_mono)
    then have "real_of_int (rne (x / ?u)) * ?u \<le> real_of_int (rne (y / ?u)) * ?u"
      by (simp add: mult_right_mono)
    then show ?thesis using x y True by (simp add: fl_pos)
  next
    case False
    then have lt: "expo x + 1 \<le> expo y" using le by simp
    then have "expo y \<noteq> - 1022" using expo_props(1) [OF x] by simp
    then have "2 powi (expo y) \<le> y" using expo_props(3) [OF y] by simp
    then have "2 powi (expo y) \<le> fl y" using y by (intro fl_lower)
    moreover have "(2::real) powi (expo x + 1) \<le> 2 powi (expo y)"
      using lt by (intro power_int_increasing) simp_all
    moreover have "fl x \<le> 2 powi (expo x + 1)" using x by (rule fl_upper)
    ultimately show ?thesis by linarith
  qed
qed

lemma fl_of_int:
  assumes "0 \<le> m" "m < 2 ^ 53"
  shows "fl (of_int m) = of_int m"
proof (cases "m = 0")
  case True
  then show ?thesis by (simp add: fl_def)
next
  case False
  then have pos: "0 < real_of_int m" using assms(1) by simp
  let ?e = "expo (of_int m)"
  have "1 \<le> real_of_int m" using False assms(1) by simp
  then have "0 \<le> log 2 \<bar>real_of_int m\<bar>" by simp
  then have "0 \<le> \<lfloor>log 2 \<bar>real_of_int m\<bar>\<rfloor>" by simp
  then have e0: "0 \<le> ?e" by (simp add: expo_def)
  have "2 powi ?e \<le> real_of_int m"
    using expo_props(3) [OF pos] e0 by auto
  also have "real_of_int m < 2 ^ 53"
    using assms(2) by (metis of_int_less_iff of_int_numeral of_int_power)
  finally have "(2::real) powi ?e < 2 powi 53" by simp
  then have e53: "?e < 53"
    by (smt (verit) power_int_increasing)
  define k where "k = nat (52 - ?e)"
  have k: "?e - 52 = - int k" using e53 by (simp add: k_def)
  have "real_of_int m / 2 powi (?e - 52) = of_int (m * 2 ^ k)"
    by (simp add: k power_int_minus field_simps)
  then have "rne (real_of_int m / 2 powi (?e - 52)) = m * 2 ^ k"
    by (simp only: rne_of_int)
  then have "fl (of_int m) = of_int (m * 2 ^ k) * 2 powi (?e - 52)"
    using pos by (simp only: fl_pos)
  then show ?thesis by (simp add: k power_int_minus field_simps)
qed

lemma fl_numeral:
  assumes "numeral w < (2::int) ^ 53"
  shows "fl (numeral w) = numeral w"
  using fl_of_int [of "numeral w"] assms by simp

lemma fl_fifth: "fl 0.2 = 3602879701896397 / 2 ^ 54"
proof -
  have "fl (2 / 10) = of_int (rne ((2 / 10) / 2 powi (- 3 - 52))) * 2 powi (- 3 - 52)"
    by (rule fl_binade) (simp_all add: power_int_minus)
  also have "((2::real) / 10) / 2 powi (- 3 - 52) = 36028797018963968 / 5"
    by (simp add: power_int_minus)
  also have "rne (36028797018963968 / 5) = 7205759403792794"
    by (simp add: rne_def Let_def)
  finally show ?thesis by (simp add: power_int_minus)
qed

lemma fl_fifth': "fl (1 / 5) = 3602879701896397 / 2 ^ 54"
  using fl_fifth by simp

lemma fl_scale:
  assumes "2 powi e \<le> x" "x < 2 powi (e + 1)" "- 1022 \<le> e"
  shows "fl (x * 2 ^ k) = fl x * 2 ^ k"
proof -
  have p: "(2::real) ^ k = 2 powi (int k)" by simp
  have a: "2 powi (e + int k) \<le> x * 2 ^ k"
    using assms(1) unfolding p by (simp add: power_int_add)
  have b: "x * 2 ^ k < 2 powi (e + int k + 1)"
    using assms(2) unfolding p by (simp add: power_int_add)
  have "fl (x * 2 ^ k) =
          of_int (rne (x * 2 ^ k / 2 powi (e + int k - 52))) * 2 powi (e + int k - 52)"
    using a b assms(3) by (intro fl_binade) simp_all
  also have "x * 2 ^ k / 2 powi (e + int k - 52) = x / 2 powi (e - 52)"
    unfolding p by (simp add: power_int_add power_int_diff)
  also have "(2::real) powi (e + int k - 52) = 2 powi (e - 52) * 2 ^ k"
    unfolding p by (simp add: power_int_add power_int_diff)
  finally show ?thesis
    using fl_binade [OF assms] by simp
qed

lemma fl_200: "fl (1000 * fl 0.2) = 200"
proof -
  let ?x = "1000 * (3602879701896397 / 2 ^ 54) :: real"
  have "fl (1000 * fl 0.2) = fl ?x" by (simp only: fl_fifth)
  also have "fl ?x = of_int (rne (?x / 2 powi (7 - 52))) * 2 powi (7 - 52)"
    by (rule fl_binade) (simp_all add: power_int_minus)
  also have "?x / 2 powi (7 - 52) = 3602879701896397000 / 512"
    by (simp add: power_int_minus)
  also have "rne (3602879701896397000 / 512) = 7036874417766400"
    by (simp add: rne_def Let_def)
  finally show ?thesis by (simp add: power_int_minus)
qed

lemma fl_60000: "fl (300000 * fl 0.2) = 60000"
proof -
  let ?x = "300000 * (3602879701896397 / 2 ^ 54) :: real"
  have "fl (300000 * fl 0.2) = fl ?x" by (simp only: fl_fifth)
  also have "fl ?x = of_int (rne (?x / 2 powi (15 - 52))) * 2 powi (15 - 52)"
    by (rule fl_binade) (simp_all add: power_int_minus)
  also have "?x / 2 powi (15 - 52) = 1080863910568919100000 / 131072"
    by (simp add: power_int_minus)
  also have "rne (1080863910568919100000 / 131072) = 8246337208320000"
    by (simp add: rne_def Let_def)
  finally show ?thesis by (simp add: power_int_minus)
qed

section \<open>Facts about the retry policy\<close>

lemma recordRetry_counts:
  assumes "redis_fault \<Omega> (tick w) = None" "redis_fault \<Omega> (Suc (tick w)) = None"
  shows "\<exists>d ex. retry (snd (recordRetry \<Omega> rid err w)) rid = Some (d, ex)
            \<and> attempt_count d = Suc (stored_attempt_count \<Omega> rid w)"
  using assms
  by (simp add: recordRetry_def stored_attempt_count_def redis_get_result await_def redis_set_def
                try_catch_def client_put_def step_def Let_def Date_now_def
           split: option.splits)

text \<open>
  C9.  When the store answers the read of the retry record, \<^verbatim>\<open>shouldRetry\<close> (of the
  retry service and of the email service) returns whether the stored attempt count of the
  request, 0 when there is no retry record, is below 3.  When the read fails,
  \<^verbatim>\<open>RedisService.get\<close> answers \<^verbatim>\<open>null\<close> and \<^verbatim>\<open>shouldRetry\<close> returns true
  whatever is stored.
\<close>

theorem shouldRetry_threshold:
  "(redis_fault \<Omega> (tick w) = None \<longrightarrow>
      RetryService_shouldRetry \<Omega> rid w = (Inr (stored_attempt_count \<Omega> rid w < 3), step w)
    \<and> EmailService_shouldRetry \<Omega> payload w
        = (Inr (stored_attempt_count \<Omega> (request_id payload) w < 3), step w))
   \<and> (redis_fault \<Omega> (tick w) \<noteq> None \<longrightarrow>
      RetryService_shouldRetry \<Omega> rid w = (Inr True, step w)
    \<and> EmailService_shouldRetry \<Omega> payload w = (Inr True, step w))
   \<and> (retry w rid = None \<longrightarrow> stored_attempt_count \<Omega> rid w = 0)
   \<and> MAX_ATTEMPTS = 3 \<and> MAX_RETRY_ATTEMPTS = 3"
  by (auto simp: RetryService_shouldRetry_def EmailService_shouldRetry_def getRetryCount_def
                 redis_get_result await_def return_def stored_attempt_count_def live_def
                 MAX_ATTEMPTS_def MAX_RETRY_ATTEMPTS_def
           split: option.splits)

theorem shouldRetry_threshold_witness:
  "redis_fault calm (tick fresh) = None
   \<and> fst (RetryService_shouldRetry calm ''r1'' fresh) = Inr True
   \<and> fst (RetryService_shouldRetry calm ''r1''
            (fresh\<lparr>retry := [''r1'' \<mapsto> (retry_record 1, None)]\<rparr>)) = Inr True
   \<and> fst (RetryService_shouldRetry calm ''r1''
            (fresh\<lparr>retry := [''r1'' \<mapsto> (retry_record 2, None)]\<rparr>)) = Inr True
   \<and> fst (RetryService_shouldRetry calm ''r1''
            (fresh\<lparr>retry := [''r1'' \<mapsto> (retry_record 3, None)]\<rparr>)) = Inr False
   \<and> fst (EmailService_shouldRetry calm r1
            (fresh\<lparr>retry := [''r1'' \<mapsto> (retry_record 4, None)]\<rparr>)) = Inr False
   \<and> redis_fault (calm\<lparr>redis_fault := (\<lambda>t. Some down)\<rparr>) (tick fresh) \<noteq> None
   \<and> fst (EmailService_shouldRetry (calm\<lparr>redis_fault := (\<lambda>t. Some down)\<rparr>) r1
            (fresh\<lparr>retry := [''r1'' \<mapsto> (retry_record 4, None)]\<rparr>)) = Inr True"
  using shouldRetry_threshold [of calm fresh "''r1''" r1]
        shouldRetry_threshold [of calm "fresh\<lparr>retry := [''r1'' \<mapsto> (retry_record 1, None)]\<rparr>" "''r1''" r1]
        shouldRetry_threshold [of calm "fresh\<lparr>retry := [''r1'' \<mapsto> (retry_record 2, None)]\<rparr>" "''r1''" r1]
        shouldRetry_threshold [of calm "fresh\<lparr>retry := [''r1'' \<mapsto> (retry_record 3, None)]\<rparr>" "''r1''" r1]
        shouldRetry_threshold [of calm "fresh\<lparr>retry := [''r1'' \<mapsto> (retry_record 4, None)]\<rparr>" "''r1''" r1]
        shouldRetry_threshold [of "calm\<lparr>redis_fault := (\<lambda>t. Some down)\<rparr>"
                                  "fresh\<lparr>retry := [''r1'' \<mapsto> (retry_record 4, None)]\<rparr>" "''r1''" r1]
  by (simp add: stored_attempt_count_def live_def fresh_def calm_def r1_def retry_record_def
                Date_now_def)

text \<open>
  C9, as stated, fails.  A retry record with seven attempts is stored for \<open>r1\<close> and does
  not expire, but the store fails the read: both \<^verbatim>\<open>shouldRetry\<close> functions return
  true.
\<close>

theorem failing_read_allows_retry_counterexample:
  "retry (fresh\<lparr>retry := [''r1'' \<mapsto> (retry_record 7, None)]\<rparr>) ''r1''
     = Some (retry_record 7, None)
   \<and> attempt_count (retry_record 7) = 7
   \<and> fst (RetryService_shouldRetry (calm\<lparr>redis_fault := (\<lambda>t. Some down)\<rparr>) ''r1''
            (fresh\<lparr>retry := [''r1'' \<mapsto> (retry_record 7, None)]\<rparr>)) = Inr True
   \<and> fst (EmailService_shouldRetry (calm\<lparr>redis_fault := (\<lambda>t. Some down)\<rparr>) r1
            (fresh\<lparr>retry := [''r1'' \<mapsto> (retry_record 7, None)]\<rparr>)) = Inr True"
  by (simp add: RetryService_shouldRetry_def EmailService_shouldRetry_def getRetryCount_def
                redis_get_result await_def return_def fresh_def calm_def r1_def
                retry_record_def MAX_ATTEMPTS_def MAX_RETRY_ATTEMPTS_def)

lemma fl_small_power: 
  assumes "k \<le> 8"
  shows "fl (2 ^ k) = 2 ^ k" "fl (1000 * 2 ^ k) = 1000 * 2 ^ k"
proof -
  have "(2::int) ^ k \<le> 2 ^ 8" using assms by (intro power_increasing) simp_all
  then have b: "(2::int) ^ k \<le> 256" by simp
  have "fl (of_int (2 ^ k)) = of_int (2 ^ k)"
    using b by (intro fl_of_int) simp_all
  then show "fl (2 ^ k) = 2 ^ k" by simp
  have "fl (of_int (1000 * 2 ^ k)) = of_int (1000 * 2 ^ k)"
    using b by (intro fl_of_int) simp_all
  then show "fl (1000 * 2 ^ k) = 1000 * 2 ^ k" by simp
qed

lemma base_delay_small:
  assumes "k \<le> 8"
  shows "base_delay (Suc k) = 1000 * 2 ^ k"
proof -
  have "(2::real) ^ k \<le> 2 ^ 8" using assms by (intro power_increasing) simp_all
  then have b: "(2::real) ^ k \<le> 256" by simp
  have big: "(256::real) < 2 ^ 1024" "(256000::real) < 2 ^ 1024" by simp_all
  have i: "int (Suc k) - 1 = int k" by simp
  have p: "Math_pow BACKOFF_MULTIPLIER (int k) = Some (2 ^ k)"
    using b big by (simp add: Math_pow_def BACKOFF_MULTIPLIER_def double_def fl_small_power [OF assms])
  have t: "multiply INITIAL_DELAY_MS (Some (2 ^ k)) = Some (1000 * 2 ^ k)"
    using b big
    by (simp add: multiply_def INITIAL_DELAY_MS_def double_def fl_small_power [OF assms])
  show ?thesis
    unfolding base_delay_def i p t using b by (simp add: Math_min_def MAX_DELAY_MS_def)
qed

lemma base_delay_large:
  assumes "9 \<le> k"
  shows "base_delay (Suc k) = 300000"
proof (cases "Math_pow BACKOFF_MULTIPLIER (int k)")
  case None
  then show ?thesis
    by (simp add: base_delay_def multiply_def Math_min_def MAX_DELAY_MS_def)
next
  case (Some y)
  then have y: "y = fl (2 ^ k)"
    by (simp add: Math_pow_def BACKOFF_MULTIPLIER_def double_def split: if_splits)
  have "(2::real) ^ 9 \<le> 2 ^ k" using assms by (intro power_increasing) simp_all
  then have "fl 512 \<le> fl (2 ^ k)" by (intro fl_mono) simp_all
  moreover have "fl 512 = 512" by (rule fl_numeral) simp
  ultimately have y512: "512 \<le> y" using y by simp
  show ?thesis
  proof (cases "multiply INITIAL_DELAY_MS (Some y)")
    case None
    then show ?thesis using Some
      by (simp add: base_delay_def Math_min_def MAX_DELAY_MS_def)
  next
    case z: (Some z)
    then have "z = fl (1000 * y)"
      by (simp add: multiply_def INITIAL_DELAY_MS_def double_def split: if_splits)
    moreover have "fl 300000 \<le> fl (1000 * y)" using y512 by (intro fl_mono) simp_all
    moreover have "fl 300000 = 300000" by (rule fl_numeral) simp
    ultimately have "300000 \<le> z" by simp
    then show ?thesis using Some z
      by (simp add: base_delay_def Math_min_def MAX_DELAY_MS_def)
  qed
qed

lemma base_delay_pos:
  assumes "1 \<le> n"
  shows "base_delay n = min (1000 * 2 ^ (n - 1)) 300000"
proof -
  obtain k where n: "n = Suc k" using assms by (cases n) simp_all
  show ?thesis
  proof (cases "k \<le> 8")
    case True
    then have "(2::real) ^ k \<le> 2 ^ 8" by (intro power_increasing) simp_all
    then show ?thesis using True by (simp add: n base_delay_small)
  next
    case False
    then have k: "9 \<le> k" by simp
    then have "(2::real) ^ 9 \<le> 2 ^ k" by (intro power_increasing) simp_all
    then show ?thesis using k by (simp add: n base_delay_large)
  qed
qed

lemma base_delay_mono:
  assumes "1 \<le> m" "m \<le> n"
  shows "base_delay m \<le> base_delay n"
proof -
  have "(2::real) ^ (m - 1) \<le> 2 ^ (n - 1)"
    using assms by (intro power_increasing) simp_all
  then have "min (1000 * (2::real) ^ (m - 1)) 300000 \<le> min (1000 * 2 ^ (n - 1)) 300000"
    by (intro min.mono) simp_all
  then show ?thesis
    using assms by (simp add: base_delay_pos)
qed

text \<open>The product \<^verbatim>\<open>delay * 0.2\<close> is computed without error for every delay that occurs.\<close>

lemma fifth_of_delay:
  assumes "1 \<le> n"
  shows "fl (base_delay n * fl 0.2) = base_delay n / 5"
proof -
  obtain k where n: "n = Suc k" using assms by (cases n) simp_all
  show ?thesis
  proof (cases "k \<le> 8")
    case True
    have "fl (1000 * fl 0.2 * 2 ^ k) = fl (1000 * fl 0.2) * 2 ^ k"
      by (rule fl_scale [where e = 7]) (simp_all add: fl_fifth')
    then show ?thesis
      using True fl_200 by (simp add: n base_delay_small mult.commute mult.left_commute)
  next
    case False
    then show ?thesis using fl_60000 by (simp add: n base_delay_large)
  qed
qed

lemma delay_integral:
  assumes "1 \<le> n"
  shows "\<exists>d. 0 \<le> d \<and> 6 * d < 2 ^ 53 \<and> base_delay n = of_int (5 * d)"
proof -
  obtain k where n: "n = Suc k" using assms by (cases n) simp_all
  show ?thesis
  proof (cases "k \<le> 8")
    case True
    then have "(2::int) ^ k \<le> 2 ^ 8" by (intro power_increasing) simp_all
    then have "0 \<le> (200::int) * 2 ^ k \<and> 6 * (200 * 2 ^ k) < (2::int) ^ 53
               \<and> base_delay n = of_int (5 * (200 * 2 ^ k))"
      using True by (simp add: n base_delay_small)
    then show ?thesis by blast
  next
    case False
    then have "0 \<le> (60000::int) \<and> 6 * 60000 < (2::int) ^ 53
               \<and> base_delay n = of_int (5 * 60000)"
      by (simp add: n base_delay_large)
    then show ?thesis by blast
  qed
qed

text \<open>
  C8.  For an attempt count \<open>n \<ge> 1\<close> the delay before jitter is
  \<open>min (1000 * 2 ^ (n - 1)) 300000\<close>, at most 300000 and non-decreasing in \<open>n\<close>; for
  every draw \<open>r\<close> in \<open>[0, 1)\<close> the returned delay is at least the delay before jitter
  and at most that delay plus 0.2 times it.
\<close>

theorem backoff_bounds:
  assumes "1 \<le> n"
  shows "base_delay n = min (1000 * 2 ^ (n - 1)) 300000
       \<and> base_delay n \<le> 300000
       \<and> (\<forall>m. 1 \<le> m \<and> m \<le> n \<longrightarrow> base_delay m \<le> base_delay n)
       \<and> (\<forall>r. 0 \<le> r \<and> r < 1 \<longrightarrow>
             base_delay n \<le> of_int (calculateBackoff n r)
           \<and> of_int (calculateBackoff n r) \<le> base_delay n + 0.2 * base_delay n)"
proof (intro conjI allI impI)
  show b: "base_delay n = min (1000 * 2 ^ (n - 1)) 300000"
    using assms by (rule base_delay_pos)
  show "base_delay n \<le> 300000" by (simp add: b)
  show "base_delay m \<le> base_delay n" if "1 \<le> m \<and> m \<le> n" for m
    using that by (simp add: base_delay_mono)
  fix r :: real assume r: "0 \<le> r \<and> r < 1"
  obtain d :: int where d: "0 \<le> d" "6 * d < 2 ^ 53" "base_delay n = of_int (5 * d)"
    using delay_integral [OF assms] by blast
  have fifth: "fl (real_of_int (5 * d) * fl 0.2) = of_int d"
    using fifth_of_delay [OF assms] unfolding d(3) by simp
  define j where "j = fl (of_int d * r)"
  have exact: "fl (of_int d) = of_int d" "fl (of_int (5 * d)) = of_int (5 * d)"
    "fl (of_int (6 * d)) = of_int (6 * d)"
    using d(1,2) by (intro fl_of_int; simp)+
  have "0 \<le> real_of_int d * r" "real_of_int d * r \<le> of_int d"
    using d(1) r by (simp_all add: mult_left_le)
  then have "fl 0 \<le> j" "j \<le> fl (of_int d)"
    unfolding j_def by (intro fl_mono; simp)+
  then have j: "0 \<le> j" "j \<le> of_int d"
    using exact(1) by (simp_all add: fl_def)
  define s where "s = fl (of_int (5 * d) + j)"
  have "fl (of_int (5 * d)) \<le> s" "s \<le> fl (of_int (6 * d))"
    unfolding s_def using j d(1) by (intro fl_mono; simp)+
  then have s: "of_int (5 * d) \<le> s" "s \<le> of_int (6 * d)"
    using exact by simp_all
  have c: "calculateBackoff n r = \<lfloor>s\<rfloor>"
    unfolding calculateBackoff_def Let_def d(3) fifth s_def j_def ..
  have "5 * d \<le> \<lfloor>s\<rfloor>" using s(1) by (simp add: le_floor_iff)
  then show "base_delay n \<le> of_int (calculateBackoff n r)"
    unfolding c d(3) by (simp only: of_int_le_iff)
  have "of_int \<lfloor>s\<rfloor> \<le> s" by simp
  then have "real_of_int \<lfloor>s\<rfloor> \<le> of_int (6 * d)" using s(2) by linarith
  then show "of_int (calculateBackoff n r) \<le> base_delay n + 0.2 * base_delay n"
    unfolding c d(3) by simp
qed

lemma backoff_half: "calculateBackoff 3 (1 / 2) = 4400"
proof -
  have d: "base_delay 3 = 4000"
    using base_delay_small [of 2] by (simp add: numeral_3_eq_3)
  have "fl (base_delay 3 * fl 0.2) = base_delay 3 / 5"
    by (rule fifth_of_delay) simp
  then have f: "fl (4000 * fl 0.2) = 800" unfolding d by simp
  have j: "fl (800 * (1 / 2)) = 400"
    using fl_numeral [of "num.Bit0 (num.Bit0 (num.Bit0 (num.Bit0 (num.Bit1 (num.Bit0 (num.Bit0 (num.Bit1 num.One)))))))"]
    by simp
  have s: "fl (4000 + 400) = 4400"
    using fl_of_int [of 4400] by simp
  show ?thesis
    unfolding calculateBackoff_def Let_def d f j s by simp
qed

lemma backoff_reaches_upper_bound: "calculateBackoff 1 (1 - 1 / 2 ^ 52) = 1200"
proof -
  have d: "base_delay 1 = 1000"
    using base_delay_small [of 0] by simp
  have f: "fl (1000 * fl 0.2) = 200" by (rule fl_200)
  let ?x = "200 * (1 - 1 / 2 ^ 52) :: real"
  have "fl ?x = of_int (rne (?x / 2 powi (7 - 52))) * 2 powi (7 - 52)"
    by (rule fl_binade) (simp_all add: power_int_minus)
  also have "?x / 2 powi (7 - 52) = 7036874417766400 - 25 / 16"
    by (simp add: power_int_minus)
  also have "rne (7036874417766400 - 25 / 16) = 7036874417766398"
    by (simp add: rne_def Let_def)
  finally have j: "fl ?x = 200 - 1 / 2 ^ 44"
    by (simp add: power_int_minus)
  let ?y = "1000 + (200 - 1 / 2 ^ 44) :: real"
  have "fl ?y = of_int (rne (?y / 2 powi (10 - 52))) * 2 powi (10 - 52)"
    by (rule fl_binade) (simp_all add: power_int_minus)
  also have "?y / 2 powi (10 - 52) = 5277655813324800 - 1 / 4"
    by (simp add: power_int_minus)
  also have "rne (5277655813324800 - 1 / 4) = 5277655813324800"
    by (simp add: rne_def Let_def)
  finally have s: "fl ?y = 1200"
    by (simp add: power_int_minus)
  show ?thesis
    unfolding calculateBackoff_def Let_def d f j s by simp
qed

lemma backoff_below_half: "calculateBackoff 1 (1 / 2 - 1 / 2 ^ 53) = 1100"
proof -
  have d: "base_delay 1 = 1000"
    using base_delay_small [of 0] by simp
  have f: "fl (1000 * fl 0.2) = 200" by (rule fl_200)
  let ?x = "200 * (1 / 2 - 1 / 2 ^ 53) :: real"
  have "fl ?x = of_int (rne (?x / 2 powi (6 - 52))) * 2 powi (6 - 52)"
    by (rule fl_binade) (simp_all add: power_int_minus)
  also have "?x / 2 powi (6 - 52) = 7036874417766400 - 25 / 16"
    by (simp add: power_int_minus)
  also have "rne (7036874417766400 - 25 / 16) = 7036874417766398"
    by (simp add: rne_def Let_def)
  finally have j: "fl ?x = 100 - 1 / 2 ^ 45"
    by (simp add: power_int_minus)
  let ?y = "1000 + (100 - 1 / 2 ^ 45) :: real"
  have "fl ?y = of_int (rne (?y / 2 powi (10 - 52))) * 2 powi (10 - 52)"
    by (rule fl_binade) (simp_all add: power_int_minus)
  also have "?y / 2 powi (10 - 52) = 4837851162214400 - 1 / 8"
    by (simp add: power_int_minus)
  also have "rne (4837851162214400 - 1 / 8) = 4837851162214400"
    by (simp add: rne_def Let_def)
  finally have s: "fl ?y = 1100"
    by (simp add: power_int_minus)
  show ?thesis
    unfolding calculateBackoff_def Let_def d f j s by simp
qed

lemma backoff_capped_upper_bound: "calculateBackoff 10 (1 - 1 / 2 ^ 52) = 360000"
proof -
  have d: "base_delay 10 = 300000"
    using base_delay_large [of 9] by simp
  have f: "fl (300000 * fl 0.2) = 60000" by (rule fl_60000)
  let ?x = "60000 * (1 - 1 / 2 ^ 52) :: real"
  have "fl ?x = of_int (rne (?x / 2 powi (15 - 52))) * 2 powi (15 - 52)"
    by (rule fl_binade) (simp_all add: power_int_minus)
  also have "?x / 2 powi (15 - 52) = 8246337208320000 - 1875 / 1024"
    by (simp add: power_int_minus)
  also have "rne (8246337208320000 - 1875 / 1024) = 8246337208319998"
    by (simp add: rne_def Let_def)
  finally have j: "fl ?x = 60000 - 1 / 2 ^ 36"
    by (simp add: power_int_minus)
  let ?y = "300000 + (60000 - 1 / 2 ^ 36) :: real"
  have "fl ?y = of_int (rne (?y / 2 powi (18 - 52))) * 2 powi (18 - 52)"
    by (rule fl_binade) (simp_all add: power_int_minus)
  also have "?y / 2 powi (18 - 52) = 6184752906240000 - 1 / 4"
    by (simp add: power_int_minus)
  also have "rne (6184752906240000 - 1 / 4) = 6184752906240000"
    by (simp add: rne_def Let_def)
  finally have s: "fl ?y = 360000"
    by (simp add: power_int_minus)
  show ?thesis
    unfolding calculateBackoff_def Let_def d f j s by simp
qed

theorem backoff_bounds_witness:
  "(1::nat) \<le> 3 \<and> base_delay 3 = 4000 \<and> base_delay 10 = 300000
   \<and> base_delay 2 \<le> base_delay 3
   \<and> (0::real) \<le> 1 / 2 \<and> (1 / 2 :: real) < 1 \<and> calculateBackoff 3 (1 / 2) = 4400
   \<and> (0::real) \<le> 1 - 1 / 2 ^ 52 \<and> (1 - 1 / 2 ^ 52 :: real) < 1
   \<and> base_delay 1 = 1000 \<and> calculateBackoff 1 (1 - 1 / 2 ^ 52) = 1200"
  using backoff_bounds [of 3] backoff_bounds [of 10] backoff_bounds [of 1] backoff_bounds [of 2]
    backoff_half backoff_reaches_upper_bound
  by simp

section \<open>Facts about the idempotency guard and the message handler\<close>

lemma checkIdempotency_result:
  "checkIdempotency \<Omega> rid w =
     (Inr (case redis_fault \<Omega> (tick w) of
             Some e \<Rightarrow> False
           | None \<Rightarrow> live (Date_now \<Omega> w) (processed w rid) \<noteq> None), step w)"
  by (simp add: checkIdempotency_def redis_get_result await_def return_def split: option.splits)

lemma markAsProcessed_stores:
  assumes "markAsProcessed \<Omega> rid r w = (Inr u, w')"
  shows "\<exists>ex. processed w' rid = Some (r, ex)"
  using assms
  by (auto simp: markAsProcessed_def redis_set_def try_catch_def client_put_def throw_def step_def
           split: option.splits)

lemma on_error_unsuccessful:
  assumes "on_error \<Omega> payload e w = (Inr r, w')"
  shows "\<not> success r"
  using assms on_error_returns [of \<Omega> payload e w] by auto

lemma deliver_success_stored:
  assumes "deliver \<Omega> payload w = (Inr r, w')" "success r"
  shows "processed w' (request_id payload) \<noteq> None"
  using assms unfolding deliver_def after_lookup_def
  by (auto simp: await_def return_def throw_def
           split: prod.splits sum.splits option.splits if_splits
           dest!: markAsProcessed_stores)

lemma live_Some: "live t en \<noteq> None \<Longrightarrow> en \<noteq> None"
  by (cases en) (simp_all add: live_def)

lemma process_success_stored:
  assumes "processEmailNotification \<Omega> payload w = (Inr r, w')" "success r"
  shows "processed w' (request_id payload) \<noteq> None"
proof (cases "attempt \<Omega> payload w")
  case (Pair a w1)
  show ?thesis
  proof (cases a)
    case (Inl e)
    then have "on_error \<Omega> payload e w1 = (Inr r, w')"
      using Pair assms(1) by (simp add: processEmailNotification_def try_catch_def)
    then show ?thesis using assms(2) on_error_unsuccessful by blast
  next
    case (Inr x)
    then have a: "attempt \<Omega> payload w = (Inr r, w')"
      using Pair assms(1) by (simp add: processEmailNotification_def try_catch_def)
    show ?thesis
    proof (cases "fst (checkIdempotency \<Omega> (request_id payload) w) = Inr True")
      case True
      then have "live (Date_now \<Omega> w) (processed w (request_id payload)) \<noteq> None"
        by (auto simp: checkIdempotency_result split: option.splits)
      moreover have "w' = step w"
        using a True by (auto simp: attempt_def await_def checkIdempotency_result return_def
                              split: option.splits if_splits)
      ultimately show ?thesis using live_Some by (fastforce simp: step_def)
    next
      case False
      then have "deliver \<Omega> payload (step w) = (Inr r, w')"
        using a by (auto simp: attempt_def await_def checkIdempotency_result
                         split: option.splits if_splits)
      then show ?thesis using assms(2) deliver_success_stored by blast
    qed
  qed
qed

text \<open>
  C1.  A first call of \<^verbatim>\<open>processEmailNotification\<close> returned a successful result.  If
  the processed record of the request is still the one that call left, has not expired,
  and the store answers the read, then a second call with the same request id returns
  \<open>success = True\<close> with \<open>message_id\<close> \<^verbatim>\<open>duplicate\<close>, and the world afterwards
  differs only in the tick of that one read: no lookup, no send, no status emission and no
  write happen.
\<close>

theorem second_call_is_duplicate:
  assumes "processEmailNotification \<Omega> payload w = (Inr r, w1)" "success r"
    and "request_id payload' = request_id payload"
    and "processed w2 (request_id payload) = processed w1 (request_id payload)"
    and "redis_fault \<Omega> (tick w2) = None"
    and "\<forall>v ex. processed w2 (request_id payload) = Some (v, Some ex) \<longrightarrow> Date_now \<Omega> w2 < ex"
  shows "processEmailNotification \<Omega> payload' w2 =
           (Inr \<lparr>success = True, message_id = Some ''duplicate'', error = None,
                 timestamp = Date_now \<Omega> (step w2)\<rparr>, step w2)
       \<and> step w2 = w2\<lparr>tick := Suc (tick w2)\<rparr>"
proof -
  have "processed w1 (request_id payload) \<noteq> None"
    using assms(1,2) by (rule process_success_stored)
  then obtain v ex where en: "processed w2 (request_id payload) = Some (v, ex)"
    using assms(4) by fastforce
  have "live (Date_now \<Omega> w2) (processed w2 (request_id payload)) = Some v"
    using en assms(6) by (cases ex) (simp_all add: live_def)
  then have "checkIdempotency \<Omega> (request_id payload') w2 = (Inr True, step w2)"
    using assms(3,5) by (simp add: checkIdempotency_result)
  then show ?thesis
    by (simp add: processEmailNotification_def attempt_def try_catch_def await_def return_def
                  step_def)
qed

theorem second_call_is_duplicate_witness:
  "fst (processEmailNotification calm r1 fresh)
     = Inr \<lparr>success = True, message_id = Some ''m1'', error = None, timestamp = 10000\<rparr>
   \<and> request_id (r1\<lparr>user_id := ''u2'', template_code := ''goodbye''\<rparr>) = request_id r1
   \<and> redis_fault calm (tick (snd (processEmailNotification calm r1 fresh))) = None
   \<and> processed (snd (processEmailNotification calm r1 fresh)) ''r1''
     = Some (\<lparr>success = True, message_id = Some ''m1'', error = None, timestamp = 10000\<rparr>,
             Some 86412000)
   \<and> Date_now calm (snd (processEmailNotification calm r1 fresh)) = 13000
   \<and> fst (processEmailNotification calm (r1\<lparr>user_id := ''u2'', template_code := ''goodbye''\<rparr>)
           (snd (processEmailNotification calm r1 fresh)))
     = Inr \<lparr>success = True, message_id = Some ''duplicate'', error = None, timestamp = 14000\<rparr>
   \<and> calls (snd (processEmailNotification calm (r1\<lparr>user_id := ''u2'', template_code := ''goodbye''\<rparr>)
                    (snd (processEmailNotification calm r1 fresh))))
     = calls (snd (processEmailNotification calm r1 fresh))"
  using second_call_is_duplicate
          [of calm r1 fresh "\<lparr>success = True, message_id = Some ''m1'', error = None, timestamp = 10000\<rparr>"
              "snd (processEmailNotification calm r1 fresh)"
              "r1\<lparr>user_id := ''u2'', template_code := ''goodbye''\<rparr>"
              "snd (processEmailNotification calm r1 fresh)"]
  by (simp add: run_defs fixture_defs)

text \<open>
  C1, as stated, fails.  The first call for \<open>r1\<close> succeeds and writes the processed
  record, which expires a day later.  The second call comes one second after the first
  has finished, but the store fails its read of the record: the mail is sent again and the
  statuses are emitted again.
\<close>

theorem failing_read_sends_again_counterexample:
  "fst (processEmailNotification (calm\<lparr>redis_fault := (\<lambda>t. if t = 13 then Some down else None)\<rparr>)
          r1 fresh)
     = Inr \<lparr>success = True, message_id = Some ''m1'', error = None, timestamp = 10000\<rparr>
   \<and> processed (snd (processEmailNotification
                       (calm\<lparr>redis_fault := (\<lambda>t. if t = 13 then Some down else None)\<rparr>) r1 fresh))
        ''r1''
     = Some (\<lparr>success = True, message_id = Some ''m1'', error = None, timestamp = 10000\<rparr>,
             Some 86412000)
   \<and> Date_now (calm\<lparr>redis_fault := (\<lambda>t. if t = 13 then Some down else None)\<rparr>)
        (snd (processEmailNotification
                (calm\<lparr>redis_fault := (\<lambda>t. if t = 13 then Some down else None)\<rparr>) r1 fresh))
     = 13000
   \<and> fst (processEmailNotification (calm\<lparr>redis_fault := (\<lambda>t. if t = 13 then Some down else None)\<rparr>)
           r1 (snd (processEmailNotification
                      (calm\<lparr>redis_fault := (\<lambda>t. if t = 13 then Some down else None)\<rparr>) r1 fresh)))
     = Inr \<lparr>success = True, message_id = Some ''m1'', error = None, timestamp = 19000\<rparr>
   \<and> drop 5 (calls (snd (processEmailNotification
                           (calm\<lparr>redis_fault := (\<lambda>t. if t = 13 then Some down else None)\<rparr>)
                           r1 (snd (processEmailNotification
                                      (calm\<lparr>redis_fault := (\<lambda>t. if t = 13 then Some down else None)\<rparr>)
                                      r1 fresh)))))
     = [Emit \<lparr>notification_id = ''r1'', status = PENDING, status_timestamp = 14000,
              status_error = None\<rparr>,
        SendMail \<lparr>mail_from = ''noreply@notifications.com'', mail_to = ''alice@example.com'',
                  mail_subject_line = ''Welcome'', mail_html = ''<h1>Hello</h1>'',
                  mail_text = ''<h1>Hello</h1>'', mail_correlation = ''r1''\<rparr>,
        Emit \<lparr>notification_id = ''r1'', status = DELIVERED, status_timestamp = 19000,
              status_error = None\<rparr>]"
  by (simp add: run_defs fixture_defs)

lemma EmailService_shouldRetry_returns:
  "\<exists>b. EmailService_shouldRetry \<Omega> payload w = (Inr b, step w)"
  by (simp add: EmailService_shouldRetry_def getRetryCount_def redis_get_result await_def
                return_def split: option.splits)

text \<open>
  C2, as the code has it.  When the guard reports a new request and the user lookup
  returns not-found, \<^verbatim>\<open>processEmailNotification\<close> emits a FAILED status with the
  message \<^verbatim>\<open>User not found: <id>\<close> and returns \<open>success = False\<close> with that message.
  The message handler then asks \<^verbatim>\<open>shouldRetry\<close> and negatively acknowledges with
  requeue exactly when \<^verbatim>\<open>shouldRetry\<close> answers true.
\<close>

theorem not_found_fails_and_handler_asks_shouldRetry:
  assumes "checkIdempotency \<Omega> (request_id payload) w = (Inr False, w1)"
    and "updateStatus \<Omega> (request_id payload) PENDING None w1 = (Inr (), w2)"
    and "getUserById \<Omega> (user_id payload) w2 = (Inr None, w3)"
  shows "\<exists>w4 b.
           processEmailNotification \<Omega> payload w =
             (Inr \<lparr>success = False, message_id = None,
                   error = Some (''User not found: '' @ user_id payload),
                   timestamp = Date_now \<Omega> w4\<rparr>, w4)
         \<and> calls w4 = calls w3 @ [Emit \<lparr>notification_id = request_id payload, status = FAILED,
                                        status_timestamp = Date_now \<Omega> w3,
                                        status_error = Some (''User not found: '' @ user_id payload)\<rparr>]
         \<and> EmailService_shouldRetry \<Omega> payload w4 = (Inr b, step w4)
         \<and> handleEmailNotification \<Omega> payload w =
             (Inr (), (step w4)\<lparr>calls := calls w4 @ [Nack b]\<rparr>)"
proof -
  let ?e = "Error (''User not found: '' @ user_id payload) None"
  have d: "deliver \<Omega> payload w1 = (Inl ?e, w3)"
    using assms(2,3) by (simp add: deliver_def after_lookup_def await_def throw_def)
  have a: "attempt \<Omega> payload w = (Inl ?e, w3)"
    using assms(1) d by (simp add: attempt_def await_def)
  obtain w4 where p: "processEmailNotification \<Omega> payload w =
               (Inr \<lparr>success = False, message_id = None, error = Some (errorMessage ?e),
                     timestamp = Date_now \<Omega> w4\<rparr>, w4)"
     "calls w4 = calls w3 @ [Emit \<lparr>notification_id = request_id payload, status = FAILED,
                                    status_timestamp = Date_now \<Omega> w3,
                                    status_error = Some (errorMessage ?e)\<rparr>]"
    using a on_error_returns [of \<Omega> payload ?e w3]
    by (auto simp: processEmailNotification_def try_catch_def)
  obtain b where s: "EmailService_shouldRetry \<Omega> payload w4 = (Inr b, step w4)"
    using EmailService_shouldRetry_returns by blast
  have "handleEmailNotification \<Omega> payload w = (Inr (), (step w4)\<lparr>calls := calls w4 @ [Nack b]\<rparr>)"
    using p(1) s
    by (simp add: handleEmailNotification_def try_catch_def await_def channel_nack_def step_def)
  then show ?thesis using p s by auto
qed

theorem not_found_fails_and_handler_asks_shouldRetry_witness:
  "checkIdempotency (calm\<lparr>user_api := (\<lambda>t uid. Inl not_found)\<rparr>) (request_id r1) fresh
     = (Inr False, step fresh)
   \<and> fst (updateStatus (calm\<lparr>user_api := (\<lambda>t uid. Inl not_found)\<rparr>) (request_id r1) PENDING None
           (step fresh)) = Inr ()
   \<and> fst (getUserById (calm\<lparr>user_api := (\<lambda>t uid. Inl not_found)\<rparr>) (user_id r1)
           (snd (updateStatus (calm\<lparr>user_api := (\<lambda>t uid. Inl not_found)\<rparr>) (request_id r1) PENDING
                   None (step fresh)))) = Inr None
   \<and> fst (processEmailNotification (calm\<lparr>user_api := (\<lambda>t uid. Inl not_found)\<rparr>) r1 fresh)
     = Inr \<lparr>success = False, message_id = None, error = Some ''User not found: u1'',
            timestamp = 7000\<rparr>
   \<and> last (calls (snd (handleEmailNotification (calm\<lparr>user_api := (\<lambda>t uid. Inl not_found)\<rparr>) r1
                         fresh))) = Nack True"
  using not_found_fails_and_handler_asks_shouldRetry
    [of "calm\<lparr>user_api := (\<lambda>t uid. Inl not_found)\<rparr>" r1 fresh "step fresh"
        "snd (updateStatus (calm\<lparr>user_api := (\<lambda>t uid. Inl not_found)\<rparr>) (request_id r1) PENDING
                None (step fresh))"
        "snd (getUserById (calm\<lparr>user_api := (\<lambda>t uid. Inl not_found)\<rparr>) (user_id r1)
           (snd (updateStatus (calm\<lparr>user_api := (\<lambda>t uid. Inl not_found)\<rparr>) (request_id r1) PENDING
                   None (step fresh))))"]
  by (simp add: run_defs fixture_defs not_found_def)

text \<open>
  C2, as stated, fails.  The user service answers 404 for \<open>u1\<close>, so the lookup returns
  not-found.  The handler reads the retry count (one more store call after processing) and
  requeues the message; with a retry record of three attempts it dead-letters instead.
\<close>

theorem not_found_is_requeued_counterexample:
  "fst (getUserById (calm\<lparr>user_api := (\<lambda>t uid. Inl not_found)\<rparr>) ''u1'' fresh) = Inr None
   \<and> calls (snd (handleEmailNotification (calm\<lparr>user_api := (\<lambda>t uid. Inl not_found)\<rparr>) r1 fresh))
     = [Emit \<lparr>notification_id = ''r1'', status = PENDING, status_timestamp = 1000,
              status_error = None\<rparr>,
        HttpUser ''u1'',
        Emit \<lparr>notification_id = ''r1'', status = FAILED, status_timestamp = 5000,
              status_error = Some ''User not found: u1''\<rparr>,
        Nack True]
   \<and> tick (snd (handleEmailNotification (calm\<lparr>user_api := (\<lambda>t uid. Inl not_found)\<rparr>) r1 fresh))
     = Suc (tick (snd (processEmailNotification (calm\<lparr>user_api := (\<lambda>t uid. Inl not_found)\<rparr>) r1 fresh)))
   \<and> last (calls (snd (handleEmailNotification (calm\<lparr>user_api := (\<lambda>t uid. Inl not_found)\<rparr>) r1
                   (fresh\<lparr>retry := [''r1'' \<mapsto> (retry_record 3, None)]\<rparr>))))
     = Nack False"
  by (simp add: run_defs fixture_defs not_found_def retry_record_def)

lemma growsD: "grows m \<Longrightarrow> \<exists>evs. calls (snd (m w)) = calls w @ evs"
  by (simp add: grows_def)

lemma grows_return: "grows (return x)"
  by (simp add: grows_def return_def)

lemma grows_return_fun: "grows (\<lambda>w. return (g w) w)"
  by (simp add: grows_def return_def)

lemma grows_throw: "grows (throw e)"
  by (simp add: grows_def throw_def)

lemma grows_await:
  assumes "grows m" "\<And>x. grows (k x)"
  shows "grows (await m k)"
proof -
  have "\<exists>evs. calls (snd (await m k w)) = calls w @ evs" for w
  proof (cases "m w")
    case (Pair r w')
    obtain evs where w': "calls w' = calls w @ evs"
      using growsD [OF assms(1), of w] Pair by auto
    show ?thesis
    proof (cases r)
      case (Inl e)
      then show ?thesis using Pair w' by (simp add: await_def)
    next
      case (Inr x)
      obtain evs' where "calls (snd (k x w')) = calls w' @ evs'"
        using growsD [OF assms(2)] by blast
      then show ?thesis using Pair Inr w' by (simp add: await_def)
    qed
  qed
  then show ?thesis by (simp add: grows_def)
qed

lemma grows_try_catch:
  assumes "grows m" "\<And>e. grows (h e)"
  shows "grows (try_catch m h)"
proof -
  have "\<exists>evs. calls (snd (try_catch m h w)) = calls w @ evs" for w
  proof (cases "m w")
    case (Pair r w')
    obtain evs where w': "calls w' = calls w @ evs"
      using growsD [OF assms(1), of w] Pair by auto
    show ?thesis
    proof (cases r)
      case (Inr x)
      then show ?thesis using Pair w' by (simp add: try_catch_def)
    next
      case (Inl e)
      obtain evs' where "calls (snd (h e w')) = calls w' @ evs'"
        using growsD [OF assms(2)] by blast
      then show ?thesis using Pair Inl w' by (simp add: try_catch_def)
    qed
  qed
  then show ?thesis by (simp add: grows_def)
qed

lemma grows_keeps: "keeps calls m \<Longrightarrow> grows m"
  by (simp add: grows_def keeps_def)

lemma calls_frame:
  "calls (step w) = calls w"
  "calls (status_cache_update g1 w) = calls w" "calls (user_cache_update g2 w) = calls w"
  "calls (template_cache_update g3 w) = calls w" "calls (circuits_update g4 w) = calls w"
  "calls (processed_update g5 w) = calls w" "calls (retry_update g6 w) = calls w"
  by (simp_all add: step_def)

lemma grows_redis_get: "grows (redis_get \<Omega> family key)"
  by (intro grows_keeps keeps_redis_get calls_frame)

lemma grows_redis_set:
  assumes "\<And>g w. calls (family_update g w) = calls w"
  shows "grows (redis_set \<Omega> family_update key v ttl)"
  by (intro grows_keeps keeps_redis_set calls_frame assms)

lemma grows_updateStatus: "grows (updateStatus \<Omega> nid st err)"
proof -
  have "\<exists>evs. calls (snd (updateStatus \<Omega> nid st err w)) = calls w @ evs" for w
    using updateStatus_returns [of \<Omega> nid st err w] by auto
  then show ?thesis by (simp add: grows_def)
qed

lemma grows_getUserById: "grows (getUserById \<Omega> uid)"
proof -
  have h: "grows (http_get_user \<Omega> uid)"
    by (simp add: grows_def http_get_user_def step_def)
  show ?thesis
    unfolding getUserById_def
    by (intro grows_try_catch grows_await grows_redis_get)
       (auto intro!: grows_await grows_return grows_throw grows_redis_set h calls_frame
             split: option.splits exn.splits)
qed

lemma grows_getTemplate: "grows (getTemplate \<Omega> tc)"
proof -
  have h: "grows (http_get_template \<Omega> tc)"
    by (simp add: grows_def http_get_template_def step_def)
  show ?thesis
    unfolding getTemplate_def
    by (intro grows_try_catch grows_await grows_redis_get)
       (auto intro!: grows_await grows_return grows_throw grows_redis_set h calls_frame
             split: option.splits)
qed

lemma grows_renderTemplate: "grows (renderTemplate \<Omega> t vs)"
  by (simp add: renderTemplate_def grows_return grows_throw split: sum.splits)

lemma grows_execute:
  assumes "grows operation"
  shows "grows (execute \<Omega> operation n)"
proof -
  have run: "\<exists>evs. calls (snd (run_operation \<Omega> operation n w)) = calls w @ evs" for w
    using growsD [OF assms, of w]
    by (cases "operation w")
       (auto simp: run_operation_def keeps_mutate calls_frame split: sum.splits)
  have "\<exists>evs. calls (snd (execute \<Omega> operation n w)) = calls w @ evs" for w
  proof -
    obtain c w1 where g: "getOrCreateCircuit n w = (c, w1)"
      by (cases "getOrCreateCircuit n w")
    then have c1: "calls w1 = calls w"
      by (auto simp: getOrCreateCircuit_def split: option.splits)
    show ?thesis
      using g c1 run [of w1]
        run [of "mutate n (\<lambda>c. c\<lparr>state := HALF_OPEN, success_count := 0\<rparr>) w1"]
      by (auto simp: execute_def keeps_mutate calls_frame)
  qed
  then show ?thesis by (simp add: grows_def)
qed

lemma grows_sendEmail: "grows (sendEmail \<Omega> payload)"
proof -
  have h: "grows (sendMail \<Omega> opts)" for opts
    by (simp add: grows_def sendMail_def step_def)
  show ?thesis
    unfolding sendEmail_def send_operation_def
    by (intro grows_execute grows_try_catch grows_await grows_return_fun h)
qed

lemma grows_on_error: "grows (on_error \<Omega> payload e)"
  unfolding on_error_def
  by (intro grows_await grows_updateStatus grows_return_fun)

lemma first_event:
  assumes "m w = (Inr x, w2)" "calls w2 = calls w @ [ev]"
    and "\<And>x. grows (k x)" "\<And>e. grows (h e)"
  shows "\<exists>evs. calls (snd (try_catch (await m k) h w)) = calls w @ ev # evs"
proof (cases "k x w2")
  case (Pair r w3)
  obtain evs where w3: "calls w3 = calls w2 @ evs"
    using growsD [OF assms(3), of x w2] Pair by auto
  show ?thesis
  proof (cases r)
    case (Inr y)
    then show ?thesis using assms(1,2) Pair w3 by (simp add: try_catch_def await_def)
  next
    case (Inl e)
    obtain evs' where "calls (snd (h e w3)) = calls w3 @ evs'"
      using growsD [OF assms(4)] by blast
    then show ?thesis using assms(1,2) Pair Inl w3 by (simp add: try_catch_def await_def)
  qed
qed

lemma deliver_starts_with_pending:
  "\<exists>evs. calls (snd (try_catch (deliver \<Omega> payload) (on_error \<Omega> payload) w)) =
     calls w @ Emit \<lparr>notification_id = request_id payload, status = PENDING,
                     status_timestamp = Date_now \<Omega> w, status_error = None\<rparr> # evs"
proof -
  obtain w2 where u: "updateStatus \<Omega> (request_id payload) PENDING None w = (Inr (), w2)"
    "calls w2 = calls w @ [Emit \<lparr>notification_id = request_id payload, status = PENDING,
                                  status_timestamp = Date_now \<Omega> w, status_error = None\<rparr>]"
    using updateStatus_returns by blast
  show ?thesis
    unfolding deliver_def after_lookup_def markAsProcessed_def
    by (rule first_event [where m = "updateStatus \<Omega> (request_id payload) PENDING None"
                            and w = w, OF u])
       (auto intro!: grows_await grows_updateStatus grows_getUserById grows_getTemplate
                     grows_renderTemplate grows_sendEmail grows_redis_set grows_return
                     grows_return_fun grows_throw grows_on_error calls_frame
             split: option.splits)
qed

lemma same_but_processed:
  assumes "a\<lparr>processed := Map.empty\<rparr> = b\<lparr>processed := Map.empty\<rparr>"
  shows "a = b\<lparr>processed := processed a\<rparr>"
  using assms by (cases a, cases b) simp

lemma heedlessI:
  assumes "\<And>w P. fst (m (w\<lparr>processed := P\<rparr>)) = fst (m w)"
    and "\<And>w P. (snd (m (w\<lparr>processed := P\<rparr>)))\<lparr>processed := Map.empty\<rparr>
               = (snd (m w))\<lparr>processed := Map.empty\<rparr>"
  shows "heedless m"
  using assms by (simp add: heedless_def)

lemma heedlessD:
  assumes "heedless m"
  shows "fst (m (w\<lparr>processed := P\<rparr>)) = fst (m w)"
    and "\<exists>Q. snd (m (w\<lparr>processed := P\<rparr>)) = (snd (m w))\<lparr>processed := Q\<rparr>"
proof -
  show "fst (m (w\<lparr>processed := P\<rparr>)) = fst (m w)"
    using assms by (simp add: heedless_def)
  have "(snd (m (w\<lparr>processed := P\<rparr>)))\<lparr>processed := Map.empty\<rparr>
          = (snd (m w))\<lparr>processed := Map.empty\<rparr>"
    using assms by (simp add: heedless_def)
  then show "\<exists>Q. snd (m (w\<lparr>processed := P\<rparr>)) = (snd (m w))\<lparr>processed := Q\<rparr>"
    using same_but_processed by blast
qed

lemma heedless_return: "heedless (return x)"
  by (simp add: heedless_def return_def)

lemma heedless_return_fun:
  assumes "\<And>w P. g (w\<lparr>processed := P\<rparr>) = g w"
  shows "heedless (\<lambda>w. return (g w) w)"
  using assms by (simp add: heedless_def return_def)

lemma heedless_throw: "heedless (throw e)"
  by (simp add: heedless_def throw_def)

lemma heedless_await:
  assumes "heedless m" "\<And>x. heedless (k x)"
  shows "heedless (await m k)"
proof (rule heedlessI)
  fix w P
  obtain r w1 where mw: "m w = (r, w1)" by (cases "m w")
  obtain Q where "snd (m (w\<lparr>processed := P\<rparr>)) = (snd (m w))\<lparr>processed := Q\<rparr>"
    using heedlessD(2) [OF assms(1)] by blast
  moreover have "fst (m (w\<lparr>processed := P\<rparr>)) = fst (m w)"
    using heedlessD(1) [OF assms(1)] .
  ultimately have mw': "m (w\<lparr>processed := P\<rparr>) = (r, w1\<lparr>processed := Q\<rparr>)"
    using mw by (simp add: prod_eq_iff)
  have k: "fst (k x (w1\<lparr>processed := Q\<rparr>)) = fst (k x w1)"
    "(snd (k x (w1\<lparr>processed := Q\<rparr>)))\<lparr>processed := Map.empty\<rparr>
       = (snd (k x w1))\<lparr>processed := Map.empty\<rparr>" for x
    using assms(2) [of x] by (simp_all add: heedless_def)
  show "fst (await m k (w\<lparr>processed := P\<rparr>)) = fst (await m k w)"
    by (cases r) (simp_all add: await_def mw mw' k)
  show "(snd (await m k (w\<lparr>processed := P\<rparr>)))\<lparr>processed := Map.empty\<rparr>
           = (snd (await m k w))\<lparr>processed := Map.empty\<rparr>"
    by (cases r) (simp_all add: await_def mw mw' k)
qed

lemma heedless_try_catch:
  assumes "heedless m" "\<And>e. heedless (h e)"
  shows "heedless (try_catch m h)"
proof (rule heedlessI)
  fix w P
  obtain r w1 where mw: "m w = (r, w1)" by (cases "m w")
  obtain Q where "snd (m (w\<lparr>processed := P\<rparr>)) = (snd (m w))\<lparr>processed := Q\<rparr>"
    using heedlessD(2) [OF assms(1)] by blast
  moreover have "fst (m (w\<lparr>processed := P\<rparr>)) = fst (m w)"
    using heedlessD(1) [OF assms(1)] .
  ultimately have mw': "m (w\<lparr>processed := P\<rparr>) = (r, w1\<lparr>processed := Q\<rparr>)"
    using mw by (simp add: prod_eq_iff)
  have h: "fst (h e (w1\<lparr>processed := Q\<rparr>)) = fst (h e w1)"
    "(snd (h e (w1\<lparr>processed := Q\<rparr>)))\<lparr>processed := Map.empty\<rparr>
       = (snd (h e w1))\<lparr>processed := Map.empty\<rparr>" for e
    using assms(2) [of e] by (simp_all add: heedless_def)
  show "fst (try_catch m h (w\<lparr>processed := P\<rparr>)) = fst (try_catch m h w)"
    by (cases r) (simp_all add: try_catch_def mw mw' h)
  show "(snd (try_catch m h (w\<lparr>processed := P\<rparr>)))\<lparr>processed := Map.empty\<rparr>
           = (snd (try_catch m h w))\<lparr>processed := Map.empty\<rparr>"
    by (cases r) (simp_all add: try_catch_def mw mw' h)
qed

lemma heedless_redis_get:
  assumes "\<And>w P. family (w\<lparr>processed := P\<rparr>) = family w"
  shows "heedless (redis_get \<Omega> family key)"
  using assms
  by (simp add: heedless_def redis_get_result Date_now_def step_def split: option.splits)

lemma heedless_redis_set:
  assumes "\<And>g w P. family_update g (w\<lparr>processed := P\<rparr>) = (family_update g w)\<lparr>processed := P\<rparr>"
    and "\<And>g w. tick (family_update g w) = tick w"
  shows "heedless (redis_set \<Omega> family_update key v ttl)"
  using assms
  by (simp add: heedless_def redis_set_def client_put_def try_catch_def throw_def step_def
                Date_now_def
           split: option.splits nat.splits)

lemma heedless_markAsProcessed: "heedless (markAsProcessed \<Omega> rid result)"
  by (simp add: heedless_def markAsProcessed_def redis_set_def client_put_def try_catch_def
                throw_def step_def Date_now_def
           split: option.splits nat.splits)

lemma heedless_updateStatus: "heedless (updateStatus \<Omega> nid st err)"
proof -
  have e: "heedless (emit \<Omega> u)" for u
    by (simp add: heedless_def emit_def step_def)
  have "heedless (try_catch (await (emit \<Omega> u) (\<lambda>_. redis_set \<Omega> status_cache_update nid u (Some 3600)))
                   (\<lambda>e. return ()))" for u
    by (intro heedless_try_catch heedless_await heedless_redis_set heedless_return e) simp_all
  then show ?thesis
    by (simp add: heedless_def updateStatus_def Let_def Date_now_def)
qed

lemma heedless_getUserById: "heedless (getUserById \<Omega> uid)"
proof -
  have h: "heedless (http_get_user \<Omega> uid)"
    by (simp add: heedless_def http_get_user_def step_def)
  show ?thesis
    unfolding getUserById_def
    by (intro heedless_try_catch heedless_await heedless_redis_get)
       (auto intro!: heedless_await heedless_return heedless_throw heedless_redis_set h
             split: option.splits exn.splits)
qed

lemma heedless_getTemplate: "heedless (getTemplate \<Omega> tc)"
proof -
  have h: "heedless (http_get_template \<Omega> tc)"
    by (simp add: heedless_def http_get_template_def step_def)
  show ?thesis
    unfolding getTemplate_def
    by (intro heedless_try_catch heedless_await heedless_redis_get)
       (auto intro!: heedless_await heedless_return heedless_throw heedless_redis_set h
             split: option.splits)
qed

lemma heedless_renderTemplate: "heedless (renderTemplate \<Omega> t vs)"
  by (simp add: renderTemplate_def heedless_return heedless_throw split: sum.splits)

lemma heedless_run_operation:
  assumes "heedless operation"
  shows "heedless (run_operation \<Omega> operation n)"
proof (rule heedlessI)
  fix w P
  obtain Q where q: "snd (operation (w\<lparr>processed := P\<rparr>)) = (snd (operation w))\<lparr>processed := Q\<rparr>"
    using heedlessD(2) [OF assms] by blast
  have f: "fst (operation (w\<lparr>processed := P\<rparr>)) = fst (operation w)"
    using heedlessD(1) [OF assms] .
  obtain r w' where o: "operation w = (r, w')" by (cases "operation w")
  then have o': "operation (w\<lparr>processed := P\<rparr>) = (r, w'\<lparr>processed := Q\<rparr>)"
    using f q by (simp add: prod_eq_iff)
  show "fst (run_operation \<Omega> operation n (w\<lparr>processed := P\<rparr>)) = fst (run_operation \<Omega> operation n w)"
    using o o' by (simp add: run_operation_def split: sum.splits)
  show "(snd (run_operation \<Omega> operation n (w\<lparr>processed := P\<rparr>)))\<lparr>processed := Map.empty\<rparr>
           = (snd (run_operation \<Omega> operation n w))\<lparr>processed := Map.empty\<rparr>"
    using o o'
    by (simp add: run_operation_def mutate_def Date_now_def split: sum.splits option.splits)
qed

lemma heedless_execute:
  assumes "heedless operation"
  shows "heedless (execute \<Omega> operation n)"
proof (rule heedlessI)
  fix w P
  have r: "fst (run_operation \<Omega> operation n (v\<lparr>processed := P\<rparr>)) = fst (run_operation \<Omega> operation n v)"
    "(snd (run_operation \<Omega> operation n (v\<lparr>processed := P\<rparr>)))\<lparr>processed := Map.empty\<rparr>
           = (snd (run_operation \<Omega> operation n v))\<lparr>processed := Map.empty\<rparr>" for v
    using heedless_run_operation [OF assms, of \<Omega> n] by (simp_all add: heedless_def)
  have m: "mutate n f (v\<lparr>processed := P\<rparr>) = (mutate n f v)\<lparr>processed := P\<rparr>" for f v
    by (simp add: mutate_def split: option.splits)
  obtain c w1 where g: "getOrCreateCircuit n w = (c, w1)"
    by (cases "getOrCreateCircuit n w")
  then have g': "getOrCreateCircuit n (w\<lparr>processed := P\<rparr>) = (c, w1\<lparr>processed := P\<rparr>)"
    by (auto simp: getOrCreateCircuit_def split: option.splits)
  have d: "Date_now \<Omega> (w1\<lparr>processed := P\<rparr>) = Date_now \<Omega> w1"
    by (simp add: Date_now_def)
  show "fst (execute \<Omega> operation n (w\<lparr>processed := P\<rparr>)) = fst (execute \<Omega> operation n w)"
    unfolding execute_def g g' by (simp only: prod.case d m r Let_def split: if_splits) simp
  show "(snd (execute \<Omega> operation n (w\<lparr>processed := P\<rparr>)))\<lparr>processed := Map.empty\<rparr>
           = (snd (execute \<Omega> operation n w))\<lparr>processed := Map.empty\<rparr>"
    unfolding execute_def g g' by (simp only: prod.case d m r Let_def split: if_splits) simp
qed

lemma heedless_sendEmail: "heedless (sendEmail \<Omega> payload)"
proof -
  have h: "heedless (sendMail \<Omega> opts)" for opts
    by (simp add: heedless_def sendMail_def step_def)
  show ?thesis
    unfolding sendEmail_def send_operation_def
    by (intro heedless_execute heedless_try_catch heedless_await heedless_return_fun h)
       (simp_all add: Date_now_def)
qed

lemma heedless_on_error: "heedless (on_error \<Omega> payload e)"
  unfolding on_error_def
  by (intro heedless_await heedless_updateStatus heedless_return_fun) (simp add: Date_now_def)

lemma heedless_after_lookup: "heedless (after_lookup \<Omega> payload found)"
  unfolding after_lookup_def
  by (auto intro!: heedless_await heedless_updateStatus heedless_getTemplate
                   heedless_renderTemplate heedless_sendEmail heedless_markAsProcessed
                   heedless_return heedless_return_fun heedless_throw
           simp: Date_now_def
           split: option.splits)

lemma heedless_delivery:
  "heedless (try_catch (deliver \<Omega> payload) (on_error \<Omega> payload))"
  unfolding deliver_def
  by (intro heedless_try_catch heedless_await heedless_updateStatus heedless_getUserById
            heedless_after_lookup heedless_on_error)

text \<open>
  C10.  When the store fails the read of the processed record, \<^verbatim>\<open>RedisService.get\<close>
  returns \<^verbatim>\<open>null\<close> and \<^verbatim>\<open>checkIdempotency\<close> returns false, whatever the store
  holds.  \<^verbatim>\<open>processEmailNotification\<close> then treats the request as new: it emits the
  PENDING status first and goes on to the user lookup and the steps after it, and its
  result and its calls to the collaborators are those it would have with any other
  processed records in the store, in particular with none.
\<close>

theorem idempotency_guard_fails_open:
  assumes "redis_fault \<Omega> (tick w) = Some e"
  shows "redis_get \<Omega> processed (request_id payload) w = (Inr None, step w)
       \<and> checkIdempotency \<Omega> (request_id payload) w = (Inr False, step w)
       \<and> (\<exists>w2. updateStatus \<Omega> (request_id payload) PENDING None (step w) = (Inr (), w2)
             \<and> calls w2 = calls w @ [Emit \<lparr>notification_id = request_id payload, status = PENDING,
                                            status_timestamp = Date_now \<Omega> (step w),
                                            status_error = None\<rparr>]
             \<and> processEmailNotification \<Omega> payload w
                 = try_catch (await (getUserById \<Omega> (user_id payload)) (after_lookup \<Omega> payload))
                     (on_error \<Omega> payload) w2)
       \<and> (\<exists>evs. calls (snd (processEmailNotification \<Omega> payload w)) =
             calls w @ Emit \<lparr>notification_id = request_id payload, status = PENDING,
                             status_timestamp = Date_now \<Omega> (step w), status_error = None\<rparr> # evs)
       \<and> fst (processEmailNotification \<Omega> payload (w\<lparr>processed := P\<rparr>))
           = fst (processEmailNotification \<Omega> payload w)
       \<and> calls (snd (processEmailNotification \<Omega> payload (w\<lparr>processed := P\<rparr>)))
           = calls (snd (processEmailNotification \<Omega> payload w))"
proof -
  have g: "redis_get \<Omega> processed (request_id payload) w = (Inr None, step w)"
    using assms by (simp add: redis_get_result)
  have c: "checkIdempotency \<Omega> (request_id payload) w' = (Inr False, step w')"
    if "tick w' = tick w" for w'
    using assms that by (simp add: checkIdempotency_result)
  have p: "processEmailNotification \<Omega> payload w'
           = try_catch (deliver \<Omega> payload) (on_error \<Omega> payload) (step w')"
    if "tick w' = tick w" for w'
    using c [OF that] by (simp add: processEmailNotification_def attempt_def try_catch_def await_def)
  obtain w2 where u: "updateStatus \<Omega> (request_id payload) PENDING None (step w) = (Inr (), w2)"
    "calls w2 = calls (step w) @ [Emit \<lparr>notification_id = request_id payload, status = PENDING,
                                  status_timestamp = Date_now \<Omega> (step w), status_error = None\<rparr>]"
    using updateStatus_returns by blast
  have l: "processEmailNotification \<Omega> payload w
                 = try_catch (await (getUserById \<Omega> (user_id payload)) (after_lookup \<Omega> payload))
                     (on_error \<Omega> payload) w2"
    using u(1) by (simp add: p deliver_def try_catch_def await_def)
  have s: "step (w\<lparr>processed := P\<rparr>) = (step w)\<lparr>processed := P\<rparr>"
    by (simp add: step_def)
  have h: "fst (try_catch (deliver \<Omega> payload) (on_error \<Omega> payload) ((step w)\<lparr>processed := P\<rparr>))
             = fst (try_catch (deliver \<Omega> payload) (on_error \<Omega> payload) (step w))"
    "\<exists>Q. snd (try_catch (deliver \<Omega> payload) (on_error \<Omega> payload) ((step w)\<lparr>processed := P\<rparr>))
             = (snd (try_catch (deliver \<Omega> payload) (on_error \<Omega> payload) (step w)))\<lparr>processed := Q\<rparr>"
    using heedlessD [OF heedless_delivery] by blast+
  have sim: "fst (processEmailNotification \<Omega> payload (w\<lparr>processed := P\<rparr>))
           = fst (processEmailNotification \<Omega> payload w)"
    "calls (snd (processEmailNotification \<Omega> payload (w\<lparr>processed := P\<rparr>)))
           = calls (snd (processEmailNotification \<Omega> payload w))"
    using h by (auto simp: p s)
  show ?thesis
    using g c [of w] l u sim deliver_starts_with_pending [of \<Omega> payload "step w"]
    by (simp add: p step_def)
qed

theorem idempotency_guard_fails_open_witness:
  "redis_fault (calm\<lparr>redis_fault := (\<lambda>t. if t = 0 then Some down else None)\<rparr>)
      (tick (fresh\<lparr>processed := [''r1'' \<mapsto> (\<lparr>success = True, message_id = Some ''m0'',
                                              error = None, timestamp = 0\<rparr>, None)]\<rparr>))
     = Some down
   \<and> fst (checkIdempotency (calm\<lparr>redis_fault := (\<lambda>t. if t = 0 then Some down else None)\<rparr>) ''r1''
           (fresh\<lparr>processed := [''r1'' \<mapsto> (\<lparr>success = True, message_id = Some ''m0'',
                                              error = None, timestamp = 0\<rparr>, None)]\<rparr>))
     = Inr False
   \<and> fst (processEmailNotification (calm\<lparr>redis_fault := (\<lambda>t. if t = 0 then Some down else None)\<rparr>)
           r1 (fresh\<lparr>processed := [''r1'' \<mapsto> (\<lparr>success = True, message_id = Some ''m0'',
                                                 error = None, timestamp = 0\<rparr>, None)]\<rparr>))
     = fst (processEmailNotification (calm\<lparr>redis_fault := (\<lambda>t. if t = 0 then Some down else None)\<rparr>)
           r1 fresh)
   \<and> calls (snd (processEmailNotification
                    (calm\<lparr>redis_fault := (\<lambda>t. if t = 0 then Some down else None)\<rparr>)
                    r1 (fresh\<lparr>processed := [''r1'' \<mapsto> (\<lparr>success = True, message_id = Some ''m0'',
                                                          error = None, timestamp = 0\<rparr>, None)]\<rparr>)))
     = [Emit \<lparr>notification_id = ''r1'', status = PENDING, status_timestamp = 1000,
              status_error = None\<rparr>,
        HttpUser ''u1'', HttpTemplate ''welcome'',
        SendMail \<lparr>mail_from = ''noreply@notifications.com'', mail_to = ''alice@example.com'',
                  mail_subject_line = ''Welcome'', mail_html = ''<h1>Hello</h1>'',
                  mail_text = ''<h1>Hello</h1>'', mail_correlation = ''r1''\<rparr>,
        Emit \<lparr>notification_id = ''r1'', status = DELIVERED, status_timestamp = 10000,
              status_error = None\<rparr>]"
  using idempotency_guard_fails_open
          [of "calm\<lparr>redis_fault := (\<lambda>t. if t = 0 then Some down else None)\<rparr>"
              "fresh\<lparr>processed := [''r1'' \<mapsto> (\<lparr>success = True, message_id = Some ''m0'',
                                                error = None, timestamp = 0\<rparr>, None)]\<rparr>"
              down r1 Map.empty]
  by (simp add: run_defs fixture_defs)

text \<open>
  C10, as stated, fails.  The store fails every call.  The guard's read is answered with
  \<^verbatim>\<open>null\<close> and the user is fetched from the user service, but the write of the user
  into the cache throws: the call returns \<open>success = False\<close> with the store's error
  after a FAILED status, and no mail is sent.
\<close>

theorem lasting_outage_fails_request_counterexample:
  "fst (checkIdempotency (calm\<lparr>redis_fault := (\<lambda>t. Some down)\<rparr>) ''r1'' fresh) = Inr False
   \<and> fst (processEmailNotification (calm\<lparr>redis_fault := (\<lambda>t. Some down)\<rparr>) r1 fresh)
     = Inr \<lparr>success = False, message_id = None, error = Some ''connect ECONNREFUSED'',
            timestamp = 8000\<rparr>
   \<and> calls (snd (processEmailNotification (calm\<lparr>redis_fault := (\<lambda>t. Some down)\<rparr>) r1 fresh))
     = [Emit \<lparr>notification_id = ''r1'', status = PENDING, status_timestamp = 1000,
              status_error = None\<rparr>,
        HttpUser ''u1'',
        Emit \<lparr>notification_id = ''r1'', status = FAILED, status_timestamp = 6000,
              status_error = Some ''connect ECONNREFUSED''\<rparr>]"
  by (simp add: run_defs fixture_defs)

end
